theory Spec2Isabelle
  imports Complex_Main "HOL-Library.Stream"
begin

section \<open>Numbers\<close>

text \<open>
  The simulation computes with the TypeScript type \<^verbatim>\<open>number\<close>: the IEEE 754 binary64
  format. A number is a finite double, \<^verbatim>\<open>Infinity\<close>, \<^verbatim>\<open>-Infinity\<close> or \<^verbatim>\<open>NaN\<close>. A finite
  double is the real it denotes, and every arithmetic operation returns the exact
  real result rounded to the nearest double, ties to the even significand, and to an
  infinity when the rounded result reaches \<open>2^1024\<close>. The two zeros are identified (a
  division by zero takes the divisor as \<^verbatim>\<open>+0\<close>).
\<close>

datatype number = Fin real | PInf | NInf | NaN

subsection \<open>Rounding to the nearest double\<close>

definition pow2 :: "int \<Rightarrow> real" where
  "pow2 k = 2 powr (of_int k)"

text \<open>Rounding a real to the nearest integer, a tie to the even one.\<close>

definition rne :: "real \<Rightarrow> int" where
  "rne q = (let f = \<lfloor>q\<rfloor>; d = q - of_int f
            in if d < 1 / 2 then f else if 1 / 2 < d then f + 1
               else if even f then f else f + 1)"

text \<open>
  The exponent of the unit in the last place of the doubles around \<open>x\<close>: 52 below the
  binary exponent of \<open>x\<close>, and \<open>-1074\<close> throughout the subnormal range.
\<close>

definition ulp_exp :: "real \<Rightarrow> int" where
  "ulp_exp x = max \<lfloor>log 2 \<bar>x\<bar>\<rfloor> (- 1022) - 52"

definition rd_real :: "real \<Rightarrow> real" where
  "rd_real x = of_int (rne (x / pow2 (ulp_exp x))) * pow2 (ulp_exp x)"

definition rd :: "real \<Rightarrow> number" where
  "rd x = (if pow2 1024 \<le> rd_real x then PInf
           else if rd_real x \<le> - pow2 1024 then NInf
           else Fin (rd_real x))"

definition is_double :: "real \<Rightarrow> bool" where
  "is_double x = (rd x = Fin x)"

subsection \<open>Arithmetic\<close>

fun num_neg :: "number \<Rightarrow> number" where
  "num_neg (Fin a) = Fin (- a)"
| "num_neg PInf = NInf"
| "num_neg NInf = PInf"
| "num_neg NaN = NaN"

fun num_add :: "number \<Rightarrow> number \<Rightarrow> number" where
  "num_add (Fin a) (Fin b) = rd (a + b)"
| "num_add NaN _ = NaN"
| "num_add _ NaN = NaN"
| "num_add PInf NInf = NaN"
| "num_add NInf PInf = NaN"
| "num_add PInf _ = PInf"
| "num_add _ PInf = PInf"
| "num_add NInf _ = NInf"
| "num_add _ NInf = NInf"

fun num_sub :: "number \<Rightarrow> number \<Rightarrow> number" where
  "num_sub (Fin a) (Fin b) = rd (a - b)"
| "num_sub NaN _ = NaN"
| "num_sub _ NaN = NaN"
| "num_sub PInf PInf = NaN"
| "num_sub NInf NInf = NaN"
| "num_sub PInf _ = PInf"
| "num_sub _ PInf = NInf"
| "num_sub NInf _ = NInf"
| "num_sub _ NInf = PInf"

fun num_mul :: "number \<Rightarrow> number \<Rightarrow> number" where
  "num_mul (Fin a) (Fin b) = rd (a * b)"
| "num_mul NaN _ = NaN"
| "num_mul _ NaN = NaN"
| "num_mul PInf (Fin b) = (if b = 0 then NaN else if 0 < b then PInf else NInf)"
| "num_mul NInf (Fin b) = (if b = 0 then NaN else if 0 < b then NInf else PInf)"
| "num_mul (Fin a) PInf = (if a = 0 then NaN else if 0 < a then PInf else NInf)"
| "num_mul (Fin a) NInf = (if a = 0 then NaN else if 0 < a then NInf else PInf)"
| "num_mul PInf PInf = PInf"
| "num_mul PInf NInf = NInf"
| "num_mul NInf PInf = NInf"
| "num_mul NInf NInf = PInf"

fun num_div :: "number \<Rightarrow> number \<Rightarrow> number" where
  "num_div (Fin a) (Fin b) =
     (if b = 0 then (if a = 0 then NaN else if 0 < a then PInf else NInf)
      else rd (a / b))"
| "num_div NaN _ = NaN"
| "num_div _ NaN = NaN"
| "num_div (Fin a) PInf = Fin 0"
| "num_div (Fin a) NInf = Fin 0"
| "num_div PInf (Fin b) = (if 0 \<le> b then PInf else NInf)"
| "num_div NInf (Fin b) = (if 0 \<le> b then NInf else PInf)"
| "num_div PInf PInf = NaN"
| "num_div PInf NInf = NaN"
| "num_div NInf PInf = NaN"
| "num_div NInf NInf = NaN"

text \<open>
  \<^verbatim>\<open>Math.cbrt\<close> and \<^verbatim>\<open>Math.pow\<close>. The language fixes their results on the special
  values (the case table below: an exponent \<^verbatim>\<open>0\<close> gives \<^verbatim>\<open>1\<close>, a zero base with a negative
  exponent gives \<^verbatim>\<open>Infinity\<close>, a negative base needs an integer exponent) and leaves
  the last bit of a finite result to the implementation; here a finite result is the
  real cube root, or power, rounded to the nearest double as the arithmetic is.
\<close>

fun Math_cbrt :: "number \<Rightarrow> number" where
  "Math_cbrt (Fin x) = rd (root 3 x)"
| "Math_cbrt PInf = PInf"
| "Math_cbrt NInf = NInf"
| "Math_cbrt NaN = NaN"

definition is_odd_integer :: "real \<Rightarrow> bool" where
  "is_odd_integer e = (e = of_int \<lfloor>e\<rfloor> \<and> odd \<lfloor>e\<rfloor>)"

fun Math_pow :: "number \<Rightarrow> number \<Rightarrow> number" where
  "Math_pow _ NaN = NaN"
| "Math_pow NaN (Fin e) = (if e = 0 then Fin 1 else NaN)"
| "Math_pow NaN _ = NaN"
| "Math_pow PInf (Fin e) = (if e = 0 then Fin 1 else if 0 < e then PInf else Fin 0)"
| "Math_pow PInf PInf = PInf"
| "Math_pow PInf NInf = Fin 0"
| "Math_pow NInf (Fin e) =
     (if e = 0 then Fin 1
      else if 0 < e then (if is_odd_integer e then NInf else PInf)
      else Fin 0)"
| "Math_pow NInf PInf = PInf"
| "Math_pow NInf NInf = Fin 0"
| "Math_pow (Fin b) PInf =
     (if 1 < \<bar>b\<bar> then PInf else if \<bar>b\<bar> = 1 then NaN else Fin 0)"
| "Math_pow (Fin b) NInf =
     (if 1 < \<bar>b\<bar> then Fin 0 else if \<bar>b\<bar> = 1 then NaN else PInf)"
| "Math_pow (Fin b) (Fin e) =
     (if e = 0 then Fin 1
      else if b = 0 then (if 0 < e then Fin 0 else PInf)
      else if 0 < b then rd (b powr e)
      else if e = of_int \<lfloor>e\<rfloor>
        then rd ((if even \<lfloor>e\<rfloor> then 1 else - 1) * (\<bar>b\<bar> powr e))
      else NaN)"

text \<open>The comparison \<^verbatim>\<open>x < y\<close>; it is false when either side is \<^verbatim>\<open>NaN\<close>.\<close>

fun num_less :: "number \<Rightarrow> number \<Rightarrow> bool" where
  "num_less (Fin a) (Fin b) = (a < b)"
| "num_less NaN _ = False"
| "num_less _ NaN = False"
| "num_less PInf _ = False"
| "num_less _ PInf = True"
| "num_less _ NInf = False"
| "num_less NInf _ = True"

fun is_finite :: "number \<Rightarrow> bool" where
  "is_finite (Fin a) = True"
| "is_finite _ = False"

text \<open>A value of the type \<^verbatim>\<open>number\<close>: a special value, or a real that is a double.\<close>

fun is_number :: "number \<Rightarrow> bool" where
  "is_number (Fin a) = is_double a"
| "is_number _ = True"

text \<open>A finite number between two bounds.\<close>

fun in_range :: "real \<Rightarrow> real \<Rightarrow> number \<Rightarrow> bool" where
  "in_range lo hi (Fin r) = (lo \<le> r \<and> r \<le> hi)"
| "in_range lo hi _ = False"

section \<open>Constants and data\<close>

text \<open>
  A decimal literal of the source denotes the double nearest to it: \<open>rd\<close> of its value.
  The literals \<^verbatim>\<open>0\<close>, \<^verbatim>\<open>1\<close>, \<^verbatim>\<open>2\<close>, \<^verbatim>\<open>3\<close>, \<^verbatim>\<open>4\<close>, \<^verbatim>\<open>100\<close>, \<^verbatim>\<open>1000\<close> and \<^verbatim>\<open>3.5\<close> are doubles and
  are written as they are.
\<close>

definition STEFAN_BOLTZMAN_CONSTANT :: number where
  "STEFAN_BOLTZMAN_CONSTANT = rd (5670374419 / 10 ^ 17)"

definition KAPPA :: number where
  "KAPPA = Fin (35 / 10)"

record SourceAccount =
  balance :: number
  emissionRate :: number
  lastUpdateTime :: number
  initialSupply :: number

text \<open>Version 1.0.1 of the environment has a balance only; version 1.0.2 adds the levels.\<close>

record Environment_v1 =
  balance :: number

record Environment =
  balance :: number
  levels :: "number list"

section \<open>The emission model\<close>

definition calculateSurfaceArea :: "number \<Rightarrow> number" where
  "calculateSurfaceArea volume =
     (let PI = rd (314159 / 100000);
          radius = Math_cbrt (num_div volume (num_mul (num_div (Fin 4) (Fin 3)) PI))
      in num_mul (num_mul (Fin 4) PI) (Math_pow radius (Fin 2)))"

text \<open>Version 1.0.2: two parameters, the divisor written in the body.\<close>

definition calculateEmissionRate :: "number \<Rightarrow> number \<Rightarrow> number" where
  "calculateEmissionRate surfaceArea surfaceTemperature =
     num_div
       (num_mul (num_mul STEFAN_BOLTZMAN_CONSTANT surfaceArea)
                (Math_pow surfaceTemperature (Fin 4)))
       (rd (465 * 10 ^ 18))"

text \<open>Version 1.0.1: a third parameter, which the body does not use.\<close>

definition calculateEmissionRate_v1 :: "number \<Rightarrow> number \<Rightarrow> number \<Rightarrow> number" where
  "calculateEmissionRate_v1 surfaceArea surfaceTemperature sourceBalance =
     (let desiredRatio = rd (465 * 10 ^ 18)
      in num_div
           (num_mul (num_mul STEFAN_BOLTZMAN_CONSTANT surfaceArea)
                    (Math_pow surfaceTemperature (Fin 4)))
           desiredRatio)"

definition calculateEmissionAmount :: "SourceAccount \<Rightarrow> number \<Rightarrow> number" where
  "calculateEmissionAmount source elapsedTime =
     (let surfaceArea = calculateSurfaceArea (SourceAccount.balance source);
          surfaceTemperature = SourceAccount.balance source;
          rate =
            calculateEmissionRate_v1 surfaceArea surfaceTemperature (SourceAccount.balance source)
      in num_mul rate elapsedTime)"

section \<open>The kappa sampler\<close>

text \<open>
  \<^verbatim>\<open>Math.random()\<close> reads an ambient generator. The generator is the stream of the draws
  still to come; each call takes the head. The language promises a double in \<open>[0, 1)\<close>:
  zero included. The loop \<^verbatim>\<open>for (let i = 0; i < numSamples; i++)\<close> is the recursion on
  \<^verbatim>\<open>numSamples\<close>, a natural number (the one call passes 100).
\<close>

type_synonym rng = "real stream"

definition random_range :: "rng \<Rightarrow> bool" where
  "random_range g = (\<forall>x \<in> sset g. is_double x \<and> 0 \<le> x \<and> x < 1)"

fun kappaRandom :: "number \<Rightarrow> nat \<Rightarrow> rng \<Rightarrow> number list \<times> rng" where
  "kappaRandom kappa 0 g = ([], g)"
| "kappaRandom kappa (Suc n) g =
     (let u = Fin (shd g);
          v = Fin (shd (stl g));
          w = Fin (shd (stl (stl g)));
          x = num_sub (Math_pow u (num_div (Fin (- 1)) kappa)) (Fin 1);
          y = num_sub (Math_pow v (num_div (Fin (- 1)) kappa)) (Fin 1);
          z = num_sub (Math_pow w (num_div (Fin (- 1)) kappa)) (Fin 1);
          value = num_div (num_add (num_add x y) z) (Fin 3);
          (values, g') = kappaRandom kappa n (stl (stl (stl g)))
      in (value # values, g'))"

section \<open>The update step\<close>

text \<open>
  \<^verbatim>\<open>environment.levels[index] += val * emissionAmount\<close> for each normalised value in
  turn. Past the end of the array the read is \<^verbatim>\<open>undefined\<close>, the sum is \<^verbatim>\<open>NaN\<close>, and the
  write extends the array.
\<close>

fun add_to_levels :: "number list \<Rightarrow> number list \<Rightarrow> number \<Rightarrow> number list" where
  "add_to_levels ls [] e = ls"
| "add_to_levels [] (v # vs) e = NaN # add_to_levels [] vs e"
| "add_to_levels (l # ls) (v # vs) e = num_add l (num_mul v e) # add_to_levels ls vs e"

definition updateSourceAndEnvironment_v1 ::
  "SourceAccount \<Rightarrow> Environment_v1 \<Rightarrow> number \<Rightarrow> SourceAccount \<times> Environment_v1" where
  "updateSourceAndEnvironment_v1 source environment currentTime =
     (let elapsedTime = num_div (num_sub currentTime (lastUpdateTime source)) (Fin 1000);
          surfaceArea = calculateSurfaceArea (SourceAccount.balance source);
          surfaceTemperature = SourceAccount.balance source;
          emissionAmount = calculateEmissionAmount source elapsedTime;
          source1 = source\<lparr>SourceAccount.balance :=
                      num_sub (SourceAccount.balance source) emissionAmount\<rparr>;
          environment1 = environment\<lparr>Environment_v1.balance :=
                      num_add (Environment_v1.balance environment) emissionAmount\<rparr>
      in (source1\<lparr>lastUpdateTime := currentTime\<rparr>, environment1))"

definition updateSourceAndEnvironment ::
  "SourceAccount \<Rightarrow> Environment \<Rightarrow> number \<Rightarrow> rng \<Rightarrow> SourceAccount \<times> Environment \<times> rng" where
  "updateSourceAndEnvironment source environment currentTime g =
     (let elapsedTime = num_div (num_sub currentTime (lastUpdateTime source)) (Fin 1000);
          surfaceArea = calculateSurfaceArea (SourceAccount.balance source);
          emissionAmount =
            num_mul (calculateEmissionRate surfaceArea (SourceAccount.balance source)) elapsedTime;
          source1 = source\<lparr>SourceAccount.balance :=
                      num_sub (SourceAccount.balance source) emissionAmount\<rparr>;
          environment1 = environment\<lparr>Environment.balance :=
                      num_add (Environment.balance environment) emissionAmount\<rparr>;
          (levelDistribution, g') = kappaRandom KAPPA 100 g;
          totalDistribution = foldl num_add (Fin 0) levelDistribution;
          normalizedDistribution = map (\<lambda>val. num_div val totalDistribution) levelDistribution;
          environment2 = environment1\<lparr>levels :=
                      add_to_levels (levels environment1) normalizedDistribution emissionAmount\<rparr>
      in (source1\<lparr>lastUpdateTime := currentTime\<rparr>, environment2, g'))"

text \<open>
  \<^verbatim>\<open>Date.now()\<close> is the parameter \<open>now\<close>. The parameter \<^verbatim>\<open>initialSupply\<close> and the local
  \<^verbatim>\<open>emissionRate\<close> are written \<open>supply\<close> and \<open>rate\<close>, the field selectors having taken
  their names.
\<close>

definition initializeSourceAccount :: "number \<Rightarrow> number \<Rightarrow> SourceAccount" where
  "initializeSourceAccount supply now =
     (let surfaceArea = calculateSurfaceArea supply;
          rate = calculateEmissionRate surfaceArea supply
      in \<lparr>SourceAccount.balance = supply, emissionRate = rate,
          lastUpdateTime = now, initialSupply = supply\<rparr>)"

definition initializeSourceAccount_v1 :: "number \<Rightarrow> number \<Rightarrow> SourceAccount" where
  "initializeSourceAccount_v1 supply now =
     (let surfaceArea = calculateSurfaceArea supply;
          surfaceTemperature = supply;
          rate = calculateEmissionRate_v1 surfaceArea surfaceTemperature supply
      in \<lparr>SourceAccount.balance = supply, emissionRate = rate,
          lastUpdateTime = now, initialSupply = supply\<rparr>)"

definition initializeEnvironment :: Environment where
  "initializeEnvironment = \<lparr>Environment.balance = Fin 0, levels = replicate 100 (Fin 0)\<rparr>"

definition initializeEnvironment_v1 :: Environment_v1 where
  "initializeEnvironment_v1 = \<lparr>Environment_v1.balance = Fin 0\<rparr>"

section \<open>Sequences of ticks\<close>

text \<open>
  The driver calls \<^verbatim>\<open>updateSourceAndEnvironment\<close> once per tick with the clock reading of
  that tick; \<open>advance_all\<close> is that iteration along a list of clock readings, the
  generator threaded through.
\<close>

fun advance_all ::
  "SourceAccount \<Rightarrow> Environment \<Rightarrow> number list \<Rightarrow> rng \<Rightarrow> SourceAccount \<times> Environment \<times> rng" where
  "advance_all source environment [] g = (source, environment, g)"
| "advance_all source environment (currentTime # rest) g =
     (case updateSourceAndEnvironment source environment currentTime g of
        (source', environment', g') \<Rightarrow> advance_all source' environment' rest g')"

section \<open>Quantities named in the properties\<close>

text \<open>
  The locals \<^verbatim>\<open>elapsedTime\<close> and \<^verbatim>\<open>emissionAmount\<close> of \<^verbatim>\<open>updateSourceAndEnvironment\<close> (version
  1.0.2), as functions of the source and the clock reading.
\<close>

definition elapsedTime :: "SourceAccount \<Rightarrow> number \<Rightarrow> number" where
  "elapsedTime source currentTime =
     num_div (num_sub currentTime (lastUpdateTime source)) (Fin 1000)"

definition emissionAmount :: "SourceAccount \<Rightarrow> number \<Rightarrow> number" where
  "emissionAmount source currentTime =
     (let surfaceArea = calculateSurfaceArea (SourceAccount.balance source)
      in num_mul (calculateEmissionRate surfaceArea (SourceAccount.balance source))
           (elapsedTime source currentTime))"

text \<open>
  The locals \<^verbatim>\<open>levelDistribution\<close>, \<^verbatim>\<open>totalDistribution\<close> and \<^verbatim>\<open>normalizedDistribution\<close> of
  the same function, as functions of the generator.
\<close>

definition levelDistribution :: "rng \<Rightarrow> number list" where
  "levelDistribution g = fst (kappaRandom KAPPA 100 g)"

definition totalDistribution :: "rng \<Rightarrow> number" where
  "totalDistribution g = foldl num_add (Fin 0) (levelDistribution g)"

definition normalizedDistribution :: "rng \<Rightarrow> number list" where
  "normalizedDistribution g =
     map (\<lambda>val. num_div val (totalDistribution g)) (levelDistribution g)"

text \<open>A number that is neither negative nor \<^verbatim>\<open>NaN\<close>; and one that is not negative.\<close>

fun nonneg_num :: "number \<Rightarrow> bool" where
  "nonneg_num (Fin r) = (0 \<le> r)"
| "nonneg_num PInf = True"
| "nonneg_num NInf = False"
| "nonneg_num NaN = False"

fun nonneg_or_nan :: "number \<Rightarrow> bool" where
  "nonneg_or_nan (Fin r) = (0 \<le> r)"
| "nonneg_or_nan PInf = True"
| "nonneg_or_nan NInf = False"
| "nonneg_or_nan NaN = True"

text \<open>
  The draws that lie strictly inside the unit interval: what the generator gives
  whenever it does not return \<^verbatim>\<open>0\<close>.
\<close>

definition random_open :: "rng \<Rightarrow> bool" where
  "random_open g = (\<forall>x \<in> sset g. is_double x \<and> 0 < x \<and> x < 1)"

section \<open>Rounding\<close>

subsection \<open>Powers of two\<close>

lemma pow2_pos [simp]: "0 < pow2 k"
  by (simp add: pow2_def)

lemma pow2_nonneg [simp]: "0 \<le> pow2 k"
  by (simp add: pow2_def)

lemma pow2_neq0 [simp]: "pow2 k \<noteq> 0"
  by (simp add: pow2_def)

lemma pow2_add: "pow2 (j + k) = pow2 j * pow2 k"
  by (simp add: pow2_def powr_add)

lemma pow2_0 [simp]: "pow2 0 = 1"
  by (simp add: pow2_def)

lemma pow2_minus: "pow2 (- k) = inverse (pow2 k)"
  by (simp add: pow2_def powr_minus)

lemma pow2_diff: "pow2 (j - k) = pow2 j / pow2 k"
  using pow2_add[of j "- k"] by (simp add: pow2_minus divide_inverse)

lemma pow2_le_iff [simp]: "pow2 j \<le> pow2 k \<longleftrightarrow> j \<le> k"
  by (simp add: pow2_def)

lemma pow2_less_iff [simp]: "pow2 j < pow2 k \<longleftrightarrow> j < k"
  by (simp add: pow2_def)

lemma pow2_nat: "pow2 (int n) = 2 ^ n"
  by (simp add: pow2_def powr_realpow)

lemma pow2_numeral: "pow2 (numeral n) = 2 ^ numeral n"
  using pow2_nat[of "numeral n"] by simp

lemma pow2_neg_numeral: "pow2 (- numeral n) = 1 / 2 ^ numeral n"
  using pow2_minus[of "numeral n"] by (simp add: inverse_eq_divide pow2_numeral)

lemma pow2_52 [simp]: "pow2 52 = 2 ^ 52"
  by (rule pow2_numeral)

lemma pow2_53 [simp]: "pow2 53 = 2 ^ 53"
  by (rule pow2_numeral)

lemma pow2_int_mult: "0 \<le> k \<Longrightarrow> \<exists>n::int. pow2 k = of_int n"
proof -
  assume "0 \<le> k"
  then have "pow2 k = 2 ^ nat k" using pow2_nat[of "nat k"] by simp
  then have "pow2 k = of_int (2 ^ nat k)" by simp
  then show ?thesis by blast
qed

subsection \<open>Rounding to the nearest integer\<close>

lemma rne_cases:
  "rne q = \<lfloor>q\<rfloor> \<or> rne q = \<lfloor>q\<rfloor> + 1"
  by (simp add: rne_def Let_def)

lemma rne_of_int [simp]: "rne (of_int k) = k"
  by (simp add: rne_def Let_def)

lemma rne_0 [simp]: "rne 0 = 0"
  using rne_of_int[of 0] by simp

lemma rne_ge_int: "of_int k \<le> q \<Longrightarrow> k \<le> rne q"
proof -
  assume "of_int k \<le> q"
  then have "k \<le> \<lfloor>q\<rfloor>" by (simp add: le_floor_iff)
  then show ?thesis using rne_cases[of q] by auto
qed

lemma rne_le_int: "q \<le> of_int k \<Longrightarrow> rne q \<le> k"
proof (cases "q = of_int \<lfloor>q\<rfloor>")
  case True
  assume "q \<le> of_int k"
  then have "\<lfloor>q\<rfloor> \<le> k" by (simp add: floor_le_iff)
  moreover have "rne q = \<lfloor>q\<rfloor>" using True rne_of_int[of "\<lfloor>q\<rfloor>"] by simp
  ultimately show ?thesis by simp
next
  case False
  assume qk: "q \<le> of_int k"
  have "of_int \<lfloor>q\<rfloor> < q" using False by (metis less_eq_real_def of_int_floor_le)
  then have "of_int \<lfloor>q\<rfloor> < (of_int k :: real)" using qk by linarith
  then have "\<lfloor>q\<rfloor> < k" by simp
  then show ?thesis using rne_cases[of q] by auto
qed

lemma rne_err: "\<bar>of_int (rne q) - q\<bar> \<le> 1 / 2"
proof -
  define d where "d = q - of_int \<lfloor>q\<rfloor>"
  have d: "0 \<le> d" "d < 1" unfolding d_def by linarith+
  have q: "q = of_int \<lfloor>q\<rfloor> + d" unfolding d_def by simp
  consider "d < 1 / 2" | "1 / 2 < d" | "d = 1 / 2" by linarith
  then show ?thesis
  proof cases
    case 1
    then have "rne q = \<lfloor>q\<rfloor>" by (simp add: rne_def Let_def d_def)
    then show ?thesis using d 1 q by simp
  next
    case 2
    then have "rne q = \<lfloor>q\<rfloor> + 1" by (simp add: rne_def Let_def d_def)
    then show ?thesis using d 2 q by simp
  next
    case 3
    have "rne q = \<lfloor>q\<rfloor> \<or> rne q = \<lfloor>q\<rfloor> + 1" by (rule rne_cases)
    then show ?thesis using 3 q by auto
  qed
qed

lemma rne_minus: "rne (- q) = - rne q"
proof (cases "q = of_int \<lfloor>q\<rfloor>")
  case True
  then have "rne q = \<lfloor>q\<rfloor>" using rne_of_int[of "\<lfloor>q\<rfloor>"] by simp
  moreover have "- q = of_int (- \<lfloor>q\<rfloor>)" using True by simp
  then have "rne (- q) = - \<lfloor>q\<rfloor>" using rne_of_int[of "- \<lfloor>q\<rfloor>"] by simp
  ultimately show ?thesis by simp
next
  case False
  then have c: "\<lceil>q\<rceil> = \<lfloor>q\<rfloor> + 1"
    by (metis ceiling_altdef)
  have f: "\<lfloor>- q\<rfloor> = - \<lfloor>q\<rfloor> - 1"
    using c by (simp add: ceiling_def)
  show ?thesis
    unfolding rne_def Let_def f by (auto simp add: algebra_simps)
qed

subsection \<open>The exponent of the unit in the last place\<close>

lemma ulp_exp_minus [simp]: "ulp_exp (- x) = ulp_exp x"
  by (simp add: ulp_exp_def)

lemma ulp_exp_ge: "- 1074 \<le> ulp_exp x"
  by (simp add: ulp_exp_def)

lemma floor_log2_bounds:
  assumes "x \<noteq> 0"
  shows "pow2 \<lfloor>log 2 \<bar>x\<bar>\<rfloor> \<le> \<bar>x\<bar>" and "\<bar>x\<bar> < pow2 (\<lfloor>log 2 \<bar>x\<bar>\<rfloor> + 1)"
proof -
  have "0 < \<bar>x\<bar>" using assms by simp
  then have "2 powr \<lfloor>log 2 \<bar>x\<bar>\<rfloor> \<le> \<bar>x\<bar> \<and> \<bar>x\<bar> < 2 powr (\<lfloor>log 2 \<bar>x\<bar>\<rfloor> + 1)"
    using floor_log_eq_powr_iff[of "\<bar>x\<bar>" 2 "\<lfloor>log 2 \<bar>x\<bar>\<rfloor>"] by simp
  then show "pow2 \<lfloor>log 2 \<bar>x\<bar>\<rfloor> \<le> \<bar>x\<bar>" and "\<bar>x\<bar> < pow2 (\<lfloor>log 2 \<bar>x\<bar>\<rfloor> + 1)"
    by (simp_all add: pow2_def)
qed

lemma floor_log2_eq:
  assumes "pow2 k \<le> \<bar>x\<bar>" "\<bar>x\<bar> < pow2 (k + 1)"
  shows "\<lfloor>log 2 \<bar>x\<bar>\<rfloor> = k"
proof -
  have "0 < \<bar>x\<bar>" using assms(1) pow2_pos[of k] by linarith
  then show ?thesis
    using floor_log_eq_powr_iff[of "\<bar>x\<bar>" 2 k] assms by (simp add: pow2_def)
qed

lemma floor_log2_le:
  assumes "x \<noteq> 0" "\<bar>x\<bar> < pow2 (k + 1)"
  shows "\<lfloor>log 2 \<bar>x\<bar>\<rfloor> \<le> k"
proof -
  have "pow2 \<lfloor>log 2 \<bar>x\<bar>\<rfloor> < pow2 (k + 1)"
    using floor_log2_bounds(1)[OF assms(1)] assms(2) by linarith
  then show ?thesis by simp
qed

lemma floor_log2_ge:
  assumes "pow2 k \<le> \<bar>x\<bar>"
  shows "k \<le> \<lfloor>log 2 \<bar>x\<bar>\<rfloor>"
proof -
  have "0 < \<bar>x\<bar>" using assms less_le_trans[OF pow2_pos, of k "\<bar>x\<bar>"] by blast
  then have "x \<noteq> 0" by simp
  then have "pow2 k < pow2 (\<lfloor>log 2 \<bar>x\<bar>\<rfloor> + 1)"
    using floor_log2_bounds(2)[of x] assms by linarith
  then show ?thesis by simp
qed

lemma abs_less_ulp: "\<bar>x\<bar> < pow2 (ulp_exp x + 53)"
proof (cases "x = 0")
  case True
  then show ?thesis by simp
next
  case False
  have "\<lfloor>log 2 \<bar>x\<bar>\<rfloor> + 1 \<le> ulp_exp x + 53" by (simp add: ulp_exp_def)
  then have "pow2 (\<lfloor>log 2 \<bar>x\<bar>\<rfloor> + 1) \<le> pow2 (ulp_exp x + 53)" by simp
  then show ?thesis using floor_log2_bounds(2)[OF False] by linarith
qed

lemma ulp_exp_normal:
  assumes "pow2 (- 1022) \<le> \<bar>x\<bar>"
  shows "ulp_exp x = \<lfloor>log 2 \<bar>x\<bar>\<rfloor> - 52" and "pow2 (ulp_exp x + 52) \<le> \<bar>x\<bar>"
proof -
  have ge: "- 1022 \<le> \<lfloor>log 2 \<bar>x\<bar>\<rfloor>" using floor_log2_ge[OF assms] .
  then show e: "ulp_exp x = \<lfloor>log 2 \<bar>x\<bar>\<rfloor> - 52" by (simp add: ulp_exp_def)
  have "0 < \<bar>x\<bar>" using assms less_le_trans[OF pow2_pos, of "- 1022" "\<bar>x\<bar>"] by blast
  then have "x \<noteq> 0" by simp
  then show "pow2 (ulp_exp x + 52) \<le> \<bar>x\<bar>"
    unfolding e using floor_log2_bounds(1)[of x] by simp
qed

lemma ulp_exp_subnormal:
  assumes "\<bar>x\<bar> < pow2 (- 1022)" "x \<noteq> 0"
  shows "ulp_exp x = - 1074"
proof -
  have "\<lfloor>log 2 \<bar>x\<bar>\<rfloor> \<le> - 1023"
    using floor_log2_le[OF assms(2), of "- 1023"] assms(1) by simp
  then show ?thesis by (simp add: ulp_exp_def)
qed

lemma ulp_exp_le:
  assumes "x \<noteq> 0" "\<bar>x\<bar> < pow2 (k + 53)" "- 1074 \<le> k"
  shows "ulp_exp x \<le> k"
proof -
  have "\<lfloor>log 2 \<bar>x\<bar>\<rfloor> \<le> k + 52"
    using floor_log2_le[OF assms(1), of "k + 52"] assms(2) by (simp add: add.commute)
  then show ?thesis using assms(3) by (simp add: ulp_exp_def)
qed

lemma ulp_exp_mono:
  assumes "x \<noteq> 0" "\<bar>x\<bar> \<le> \<bar>y\<bar>"
  shows "ulp_exp x \<le> ulp_exp y"
proof -
  have "\<bar>x\<bar> < pow2 (ulp_exp y + 53)" using abs_less_ulp[of y] assms(2) by linarith
  then show ?thesis using ulp_exp_le[OF assms(1) _ ulp_exp_ge] by simp
qed

subsection \<open>Rounded values\<close>

lemma rd_real_0 [simp]: "rd_real 0 = 0"
  by (simp add: rd_real_def)

lemma rd_real_minus: "rd_real (- x) = - rd_real x"
  by (simp add: rd_real_def rne_minus)

lemma grid_fix:
  assumes "x = of_int k * pow2 G" "ulp_exp x \<le> G"
  shows "rd_real x = x"
proof -
  obtain n :: int where n: "pow2 (G - ulp_exp x) = of_int n"
    using pow2_int_mult[of "G - ulp_exp x"] assms(2) by auto
  have "x / pow2 (ulp_exp x) = of_int k * pow2 (G - ulp_exp x)"
    unfolding assms(1)[symmetric] pow2_diff using assms(1) by simp
  also have "\<dots> = of_int (k * n)" using n by simp
  finally have q: "x / pow2 (ulp_exp x) = of_int (k * n)" .
  have "rd_real x = of_int (k * n) * pow2 (ulp_exp x)"
    unfolding rd_real_def q rne_of_int ..
  also have "\<dots> = x / pow2 (ulp_exp x) * pow2 (ulp_exp x)" using q by simp
  also have "\<dots> = x" by simp
  finally show ?thesis .
qed

lemma float_intro:
  assumes "\<bar>m\<bar> < 2 ^ 53" "- 1074 \<le> e"
  shows "rd_real (of_int m * pow2 e) = of_int m * pow2 e"
proof (cases "m = 0")
  case True
  then show ?thesis by simp
next
  case False
  have "\<bar>real_of_int m\<bar> < 2 ^ 53" using assms(1) by (metis of_int_abs of_int_less_numeral_power_cancel_iff)
  then have "\<bar>of_int m * pow2 e\<bar> < 2 ^ 53 * pow2 e"
    by (simp add: abs_mult)
  also have "\<dots> = pow2 (e + 53)" by (simp add: pow2_add)
  finally have lt: "\<bar>of_int m * pow2 e\<bar> < pow2 (e + 53)" .
  have ne: "of_int m * pow2 e \<noteq> 0" using False by simp
  show ?thesis
    by (rule grid_fix[OF refl ulp_exp_le[OF ne lt assms(2)]])
qed

lemma pow2_float: "- 1074 \<le> k \<Longrightarrow> rd_real (pow2 k) = pow2 k"
  using float_intro[of 1 k] by simp

lemma rd_real_grid: "\<exists>n. rd_real x = of_int n * pow2 (ulp_exp x) \<and> \<bar>n\<bar> \<le> 2 ^ 53"
proof -
  let ?q = "x / pow2 (ulp_exp x)"
  have "\<bar>?q\<bar> < 2 ^ 53"
  proof -
    have "\<bar>x\<bar> < pow2 (ulp_exp x) * 2 ^ 53" using abs_less_ulp[of x] by (simp add: pow2_add)
    then show ?thesis by (simp add: abs_divide pos_divide_less_eq mult.commute)
  qed
  then have "?q \<le> 2 ^ 53" "- (2 ^ 53) \<le> ?q" by linarith+
  then have "?q \<le> of_int (2 ^ 53)" "of_int (- (2 ^ 53)) \<le> ?q" by simp_all
  then have "rne ?q \<le> 2 ^ 53" "- (2 ^ 53) \<le> rne ?q"
    using rne_le_int[of ?q "2 ^ 53"] rne_ge_int[of "- (2 ^ 53)" ?q] by simp_all
  then have "\<bar>rne ?q\<bar> \<le> 2 ^ 53" by simp
  then show ?thesis unfolding rd_real_def by blast
qed

lemma rd_real_idem [simp]: "rd_real (rd_real x) = rd_real x"
proof (cases "rd_real x = 0")
  case True
  then show ?thesis by simp
next
  case False
  obtain n where n: "rd_real x = of_int n * pow2 (ulp_exp x)" "\<bar>n\<bar> \<le> 2 ^ 53"
    using rd_real_grid[of x] by blast
  show ?thesis
  proof (cases "\<bar>n\<bar> = 2 ^ 53")
    case True
    have "n = 2 ^ 53 \<or> n = - (2 ^ 53)" using True by linarith
    then have "rd_real x = pow2 (ulp_exp x + 53) \<or> rd_real x = - pow2 (ulp_exp x + 53)"
      using n(1) by (auto simp add: pow2_add)
    moreover have "rd_real (pow2 (ulp_exp x + 53)) = pow2 (ulp_exp x + 53)"
      using pow2_float[of "ulp_exp x + 53"] ulp_exp_ge[of x] by simp
    ultimately show ?thesis by (auto simp add: rd_real_minus)
  next
    case False
    then have "\<bar>n\<bar> < 2 ^ 53" using n(2) by simp
    then show ?thesis unfolding n(1) using float_intro[of n "ulp_exp x"] ulp_exp_ge[of x] by simp
  qed
qed

subsection \<open>A double below a real stays below its rounding\<close>

lemma float_on_grid:
  assumes "rd_real d = d" "G \<le> ulp_exp d"
  shows "\<exists>k. d = of_int k * pow2 G"
proof -
  obtain n :: int where n: "pow2 (ulp_exp d - G) = of_int n"
    using pow2_int_mult[of "ulp_exp d - G"] assms(2) by auto
  have "pow2 (ulp_exp d) = pow2 (ulp_exp d - G) * pow2 G"
    using pow2_add[of "ulp_exp d - G" G] by simp
  then have "d = of_int (rne (d / pow2 (ulp_exp d)) * n) * pow2 G"
    using assms(1) n unfolding rd_real_def by simp
  then show ?thesis by blast
qed

lemma on_grid_lower:
  assumes "d = of_int k * pow2 (ulp_exp x)" "d \<le> x"
  shows "d \<le> rd_real x"
proof -
  have "of_int k \<le> x / pow2 (ulp_exp x)"
    using assms by (simp add: pos_le_divide_eq)
  then have "k \<le> rne (x / pow2 (ulp_exp x))" by (rule rne_ge_int)
  then have "of_int k * pow2 (ulp_exp x) \<le> of_int (rne (x / pow2 (ulp_exp x))) * pow2 (ulp_exp x)"
    by (simp add: mult_right_mono)
  then show ?thesis unfolding rd_real_def assms(1) .
qed

lemma rd_real_nonneg: "0 \<le> x \<Longrightarrow> 0 \<le> rd_real x"
  using on_grid_lower[of 0 0 x] by simp

lemma ulp_exp_above:
  assumes "- 1074 < ulp_exp x" "x \<noteq> 0"
  shows "pow2 (ulp_exp x + 52) \<le> \<bar>x\<bar>"
proof -
  have "- 1022 < \<lfloor>log 2 \<bar>x\<bar>\<rfloor>" using assms(1) unfolding ulp_exp_def by linarith
  then have e: "ulp_exp x = \<lfloor>log 2 \<bar>x\<bar>\<rfloor> - 52" unfolding ulp_exp_def by linarith
  show ?thesis unfolding e using floor_log2_bounds(1)[OF assms(2)] by simp
qed

lemma anchor_lower:
  assumes d: "rd_real d = d" and le: "d \<le> x"
  shows "d \<le> rd_real x"
proof -
  consider "x = 0" | "0 < x" "d \<le> 0" | "0 < x" "0 < d" "ulp_exp d < ulp_exp x"
    | "0 < x" "0 < d" "ulp_exp x \<le> ulp_exp d" | "x < 0" by linarith
  then show ?thesis
  proof cases
    case 1
    then show ?thesis using le by simp
  next
    case 2
    then show ?thesis using rd_real_nonneg[of x] by linarith
  next
    case 3
    have "- 1074 < ulp_exp x" using 3(3) ulp_exp_ge[of d] by linarith
    then have b: "pow2 (ulp_exp x + 52) \<le> x" using ulp_exp_above[of x] 3(1) by simp
    have "pow2 (ulp_exp x + 52) = of_int (2 ^ 52) * pow2 (ulp_exp x)"
      by (simp add: pow2_add)
    then have "pow2 (ulp_exp x + 52) \<le> rd_real x" using on_grid_lower b by blast
    moreover have "d < pow2 (ulp_exp x + 52)"
    proof -
      have "ulp_exp d + 53 \<le> ulp_exp x + 52" using 3(3) by simp
      then have "pow2 (ulp_exp d + 53) \<le> pow2 (ulp_exp x + 52)" by simp
      then show ?thesis using abs_less_ulp[of d] by linarith
    qed
    ultimately show ?thesis by linarith
  next
    case 4
    obtain k where "d = of_int k * pow2 (ulp_exp x)" using float_on_grid[OF d 4(3)] by blast
    then show ?thesis using on_grid_lower le by blast
  next
    case 5
    then have "x \<noteq> 0" "\<bar>x\<bar> \<le> \<bar>d\<bar>" using le by simp_all
    then have "ulp_exp x \<le> ulp_exp d" by (rule ulp_exp_mono)
    then obtain k where "d = of_int k * pow2 (ulp_exp x)" using float_on_grid[OF d] by blast
    then show ?thesis using on_grid_lower le by blast
  qed
qed

lemma anchor_upper:
  assumes d: "rd_real d = d" and le: "x \<le> d"
  shows "rd_real x \<le> d"
proof -
  have "rd_real (- d) = - d" using d by (simp add: rd_real_minus)
  moreover have "- d \<le> - x" using le by simp
  ultimately have "- d \<le> rd_real (- x)" by (rule anchor_lower)
  then show ?thesis by (simp add: rd_real_minus)
qed

lemma rd_real_nonpos: "x \<le> 0 \<Longrightarrow> rd_real x \<le> 0"
  using anchor_upper[of 0 x] by simp

lemma rd_real_abs_err: "\<bar>rd_real x - x\<bar> \<le> pow2 (ulp_exp x) / 2"
proof -
  let ?E = "ulp_exp x"
  have "rd_real x - x = (of_int (rne (x / pow2 ?E)) - x / pow2 ?E) * pow2 ?E"
    by (simp add: rd_real_def algebra_simps)
  then have "\<bar>rd_real x - x\<bar> = \<bar>of_int (rne (x / pow2 ?E)) - x / pow2 ?E\<bar> * pow2 ?E"
    by (simp add: abs_mult)
  also have "\<dots> \<le> 1 / 2 * pow2 ?E"
    using rne_err[of "x / pow2 ?E"] by (intro mult_right_mono) simp_all
  finally show ?thesis by simp
qed

lemma rd_real_rel_err:
  assumes "pow2 (- 1022) \<le> \<bar>x\<bar>"
  shows "\<bar>rd_real x - x\<bar> \<le> \<bar>x\<bar> / 2 ^ 53"
proof -
  have "pow2 (ulp_exp x) * 2 ^ 52 \<le> \<bar>x\<bar>"
    using ulp_exp_normal(2)[OF assms] by (simp add: pow2_add)
  then have "pow2 (ulp_exp x) / 2 \<le> \<bar>x\<bar> / 2 ^ 53" by simp
  then show ?thesis using rd_real_abs_err[of x] by linarith
qed

lemma float_multiple: "rd_real d = d \<Longrightarrow> \<exists>k. d = of_int k * pow2 (- 1074)"
  using float_on_grid[of d "- 1074"] ulp_exp_ge[of d] by blast

lemma multiple_small_exact:
  assumes "x = of_int k * pow2 (- 1074)" "\<bar>x\<bar> < pow2 (- 1022)"
  shows "rd_real x = x"
proof (cases "x = 0")
  case True
  then show ?thesis by simp
next
  case False
  have "ulp_exp x = - 1074" using ulp_exp_subnormal[OF assms(2) False] .
  then show ?thesis using grid_fix[OF assms(1)] by simp
qed

lemma multiple_pos_ge:
  assumes "x = of_int k * pow2 G" "0 < x"
  shows "pow2 G \<le> x"
proof -
  have "0 < real_of_int k * pow2 G" using assms by simp
  then have "0 < real_of_int k" using pow2_pos[of G] zero_less_mult_pos2 by blast
  then have "1 \<le> k" by simp
  then have "1 \<le> real_of_int k" by (simp only: of_int_1_le_iff)
  then have "1 * pow2 G \<le> of_int k * pow2 G" by (intro mult_right_mono) simp_all
  then show ?thesis using assms(1) by simp
qed

lemma float_sum_rel_err:
  assumes "rd_real a = a" "rd_real b = b"
  shows "\<bar>rd_real (a + b) - (a + b)\<bar> \<le> \<bar>a + b\<bar> / 2 ^ 53"
proof (cases "pow2 (- 1022) \<le> \<bar>a + b\<bar>")
  case True
  then show ?thesis by (rule rd_real_rel_err)
next
  case False
  obtain ka kb where "a = of_int ka * pow2 (- 1074)" "b = of_int kb * pow2 (- 1074)"
    using float_multiple[OF assms(1)] float_multiple[OF assms(2)] by blast
  then have eq: "a + b = of_int (ka + kb) * pow2 (- 1074)" by (simp add: algebra_simps)
  have lt: "\<bar>a + b\<bar> < pow2 (- 1022)" using False by simp
  have "rd_real (a + b) = a + b" by (rule multiple_small_exact[OF eq lt])
  then show ?thesis by simp
qed

lemma float_neg: "rd_real a = a \<Longrightarrow> rd_real (- a) = - a"
  by (simp add: rd_real_minus)

lemma float_diff_rel_err:
  assumes "rd_real a = a" "rd_real b = b"
  shows "\<bar>rd_real (a - b) - (a - b)\<bar> \<le> \<bar>a - b\<bar> / 2 ^ 53"
  using float_sum_rel_err[OF assms(1) float_neg[OF assms(2)]] by simp

lemma float_pos_ge:
  assumes "rd_real d = d" "0 < d"
  shows "pow2 (- 1074) \<le> d"
proof -
  obtain k where k: "d = of_int k * pow2 (- 1074)" using float_multiple[OF assms(1)] by blast
  show ?thesis by (rule multiple_pos_ge[OF k assms(2)])
qed

lemma float_diff_sign:
  assumes "rd_real a = a" "rd_real b = b" "a < b"
  shows "rd_real (a - b) < 0"
proof -
  obtain ka kb where "a = of_int ka * pow2 (- 1074)" "b = of_int kb * pow2 (- 1074)"
    using float_multiple[OF assms(1)] float_multiple[OF assms(2)] by blast
  then have k: "b - a = of_int (kb - ka) * pow2 (- 1074)" by (simp add: algebra_simps)
  have "0 < b - a" using assms(3) by simp
  then have "pow2 (- 1074) \<le> b - a" by (rule multiple_pos_ge[OF k])
  then have "pow2 (- 1074) \<le> rd_real (b - a)"
    by (intro anchor_lower pow2_float) simp_all
  then have "0 < rd_real (b - a)" using pow2_pos[of "- 1074"] by linarith
  moreover have "rd_real (a - b) = - rd_real (b - a)" using rd_real_minus[of "b - a"] by simp
  ultimately show ?thesis by simp
qed

section \<open>Numbers: rounding with overflow\<close>

lemma pow2_power: "pow2 k ^ n = pow2 (k * int n)"
proof (induction n)
  case 0
  then show ?case by simp
next
  case (Suc n)
  have "k * int (Suc n) = k + k * int n" by (simp add: algebra_simps)
  then show ?case using Suc by (simp add: pow2_add)
qed

lemma pow2_not_le0 [simp]: "\<not> pow2 k \<le> 0"
  using pow2_pos[of k] by (simp only: not_le)

lemma neg_pow2_less [simp]: "- pow2 j < pow2 k"
  using pow2_pos[of j] pow2_pos[of k] by linarith

lemma is_double_iff: "is_double x \<longleftrightarrow> rd_real x = x \<and> \<bar>x\<bar> < pow2 1024"
proof -
  have p: "0 < pow2 1024" by simp
  show ?thesis
    unfolding is_double_def rd_def using p by (auto simp add: abs_less_iff not_le; linarith)
qed

lemma is_double_0 [simp]: "is_double 0"
  by (simp add: is_double_iff)

lemma is_double_pow2: "- 1074 \<le> k \<Longrightarrow> k \<le> 1023 \<Longrightarrow> is_double (pow2 k)"
  by (simp add: is_double_iff pow2_float)

lemma is_double_minus [simp]: "is_double (- x) \<longleftrightarrow> is_double x"
  using rd_real_minus[of x] by (auto simp add: is_double_iff)

lemma is_double_int:
  assumes "\<bar>m\<bar> < 2 ^ 53"
  shows "is_double (of_int m)"
proof -
  have f: "rd_real (of_int m * pow2 0) = of_int m * pow2 0" by (rule float_intro[OF assms]) simp
  have "\<bar>real_of_int m\<bar> < 2 ^ 53"
    using assms by (metis of_int_abs of_int_less_numeral_power_cancel_iff)
  then have "\<bar>real_of_int m\<bar> < pow2 53" by (simp only: pow2_53)
  moreover have "pow2 53 < pow2 1024" by (simp only: pow2_less_iff)
  ultimately have "\<bar>real_of_int m\<bar> < pow2 1024" by linarith
  then show ?thesis unfolding is_double_iff using f by simp
qed

lemma rd_cases:
  obtains (fin) "rd x = Fin (rd_real x)" "\<bar>rd_real x\<bar> < pow2 1024"
  | (pinf) "rd x = PInf" "pow2 1024 \<le> rd_real x"
  | (ninf) "rd x = NInf" "rd_real x \<le> - pow2 1024"
proof -
  have p: "0 < pow2 1024" by simp
  consider "pow2 1024 \<le> rd_real x" | "rd_real x \<le> - pow2 1024"
    | "\<not> pow2 1024 \<le> rd_real x" "\<not> rd_real x \<le> - pow2 1024" by blast
  then show ?thesis
  proof cases
    case 1
    then show ?thesis using pinf by (simp add: rd_def)
  next
    case 2
    then have "\<not> pow2 1024 \<le> rd_real x" using p by linarith
    then show ?thesis using ninf 2 by (simp add: rd_def)
  next
    case 3
    then have "\<bar>rd_real x\<bar> < pow2 1024" by linarith
    then show ?thesis using fin 3 by (simp add: rd_def)
  qed
qed

lemma rd_0 [simp]: "rd 0 = Fin 0"
  by (simp add: rd_def)

lemma rd_double: "is_double x \<Longrightarrow> rd x = Fin x"
  by (simp add: is_double_def)

lemma rd_is_number: "is_number (rd x)"
proof (cases x rule: rd_cases)
  case fin
  then show ?thesis by (simp add: is_double_iff)
next
  case pinf
  then show ?thesis by simp
next
  case ninf
  then show ?thesis by simp
qed

lemma rd_minus: "rd (- x) = num_neg (rd x)"
proof (cases x rule: rd_cases)
  case fin
  then have "\<not> pow2 1024 \<le> - rd_real x" "\<not> - rd_real x \<le> - pow2 1024" by linarith+
  then show ?thesis using fin(1) by (simp add: rd_def rd_real_minus)
next
  case pinf
  then have "- rd_real x \<le> - pow2 1024" by simp
  moreover have "\<not> pow2 1024 \<le> - rd_real x" using pinf(2) pow2_pos[of 1024] by linarith
  ultimately show ?thesis using pinf(1) by (simp add: rd_def rd_real_minus)
next
  case ninf
  then have "pow2 1024 \<le> - rd_real x" by simp
  then show ?thesis using ninf(1) by (simp add: rd_def rd_real_minus)
qed

lemma rd_range:
  assumes "is_double lo" "is_double hi" "lo \<le> x" "x \<le> hi"
  shows "in_range lo hi (rd x)"
proof -
  have lo: "rd_real lo = lo" "- pow2 1024 < lo" using assms(1) by (auto simp: is_double_iff)
  have hi: "rd_real hi = hi" "hi < pow2 1024" using assms(2) by (auto simp: is_double_iff)
  have "lo \<le> rd_real x" "rd_real x \<le> hi"
    using anchor_lower[OF lo(1) assms(3)] anchor_upper[OF hi(1) assms(4)] by simp_all
  then show ?thesis using lo(2) hi(2) unfolding rd_def by auto
qed

lemma rd_overflow: "pow2 1024 \<le> x \<Longrightarrow> rd x = PInf"
proof -
  assume "pow2 1024 \<le> x"
  then have "pow2 1024 \<le> rd_real x" by (intro anchor_lower pow2_float) simp_all
  then show ?thesis by (simp add: rd_def)
qed

lemma rd_nonneg_cases:
  assumes "0 \<le> x"
  obtains r where "rd x = Fin r" "0 \<le> r" "is_double r" | "rd x = PInf"
proof (cases x rule: rd_cases)
  case fin
  then show ?thesis using rd_real_nonneg[OF assms] that(1) by (simp add: is_double_iff)
next
  case pinf
  then show ?thesis using that(2) by simp
next
  case ninf
  then have "rd_real x < 0" using pow2_pos[of 1024] by linarith
  then show ?thesis using rd_real_nonneg[OF assms] by simp
qed

lemma in_range_weaken:
  "in_range a b x \<Longrightarrow> a' \<le> a \<Longrightarrow> b \<le> b' \<Longrightarrow> in_range a' b' x"
  by (cases x) auto

lemma in_range_Fin: "in_range a b x \<Longrightarrow> \<exists>r. x = Fin r \<and> a \<le> r \<and> r \<le> b"
  by (cases x) auto

subsection \<open>The operations on ranges\<close>

lemma mul_range:
  assumes "in_range a b x" "in_range c d y" "0 \<le> a" "0 \<le> c"
    and "is_double lo" "is_double hi" "lo \<le> a * c" "b * d \<le> hi"
  shows "in_range lo hi (num_mul x y)"
proof -
  obtain r where r: "x = Fin r" "a \<le> r" "r \<le> b" using in_range_Fin[OF assms(1)] by blast
  obtain s where s: "y = Fin s" "c \<le> s" "s \<le> d" using in_range_Fin[OF assms(2)] by blast
  have "a * c \<le> r * s" using r s assms(3,4) by (intro mult_mono) simp_all
  moreover have "r * s \<le> b * d" using r s assms(3,4) by (intro mult_mono) simp_all
  ultimately show ?thesis
    unfolding r(1) s(1) num_mul.simps using assms(7,8)
    by (intro rd_range[OF assms(5,6)]) simp_all
qed

lemma div_range:
  assumes "in_range a b x" "in_range c d y" "0 \<le> a" "0 < c"
    and "is_double lo" "is_double hi" "lo \<le> a / d" "b / c \<le> hi"
  shows "in_range lo hi (num_div x y)"
proof -
  obtain r where r: "x = Fin r" "a \<le> r" "r \<le> b" using in_range_Fin[OF assms(1)] by blast
  obtain s where s: "y = Fin s" "c \<le> s" "s \<le> d" using in_range_Fin[OF assms(2)] by blast
  have "a / d \<le> r / s" using r s assms(3,4) by (intro frac_le) simp_all
  moreover have "r / s \<le> b / c" using r s assms(3,4) by (intro frac_le) simp_all
  moreover have "s \<noteq> 0" using s assms(4) by simp
  ultimately show ?thesis
    unfolding r(1) s(1) using assms(7,8)
    by (simp, intro rd_range[OF assms(5,6)]) simp_all
qed

lemma add_range:
  assumes "in_range a b x" "in_range c d y"
    and "is_double lo" "is_double hi" "lo \<le> a + c" "b + d \<le> hi"
  shows "in_range lo hi (num_add x y)"
proof -
  obtain r where r: "x = Fin r" "a \<le> r" "r \<le> b" using in_range_Fin[OF assms(1)] by blast
  obtain s where s: "y = Fin s" "c \<le> s" "s \<le> d" using in_range_Fin[OF assms(2)] by blast
  show ?thesis
    unfolding r(1) s(1) num_add.simps using r s assms(5,6)
    by (intro rd_range[OF assms(3,4)]) simp_all
qed

lemma sub_range:
  assumes "in_range a b x" "in_range c d y"
    and "is_double lo" "is_double hi" "lo \<le> a - d" "b - c \<le> hi"
  shows "in_range lo hi (num_sub x y)"
proof -
  obtain r where r: "x = Fin r" "a \<le> r" "r \<le> b" using in_range_Fin[OF assms(1)] by blast
  obtain s where s: "y = Fin s" "c \<le> s" "s \<le> d" using in_range_Fin[OF assms(2)] by blast
  show ?thesis
    unfolding r(1) s(1) num_sub.simps using r s assms(5,6)
    by (intro rd_range[OF assms(3,4)]) simp_all
qed

lemma cbrt_range:
  assumes "in_range a b x" "is_double lo" "is_double hi" "lo ^ 3 \<le> a" "b \<le> hi ^ 3"
  shows "in_range lo hi (Math_cbrt x)"
proof -
  obtain r where r: "x = Fin r" "a \<le> r" "r \<le> b" using in_range_Fin[OF assms(1)] by blast
  have "root 3 (lo ^ 3) \<le> root 3 r" using r assms(4) by simp
  then have 1: "lo \<le> root 3 r" by (simp add: odd_real_root_power_cancel)
  have "root 3 r \<le> root 3 (hi ^ 3)" using r assms(5) by simp
  then have 2: "root 3 r \<le> hi" by (simp add: odd_real_root_power_cancel)
  show ?thesis unfolding r(1) Math_cbrt.simps by (rule rd_range[OF assms(2,3) 1 2])
qed

lemma Math_pow_2: "Math_pow (Fin r) (Fin 2) = rd (r ^ 2)"
proof -
  have "\<lfloor>2::real\<rfloor> = 2" by simp
  then show ?thesis by (simp add: powr_numeral)
qed

lemma Math_pow_4: "Math_pow (Fin r) (Fin 4) = rd (r ^ 4)"
proof -
  have "\<lfloor>4::real\<rfloor> = 4" by simp
  then show ?thesis by (simp add: powr_numeral)
qed

lemma pow_2_range:
  assumes "in_range a b x" "0 \<le> a" "is_double lo" "is_double hi" "lo \<le> a ^ 2" "b ^ 2 \<le> hi"
  shows "in_range lo hi (Math_pow x (Fin 2))"
proof -
  obtain r where r: "x = Fin r" "a \<le> r" "r \<le> b" using in_range_Fin[OF assms(1)] by blast
  have "a ^ 2 \<le> r ^ 2" "r ^ 2 \<le> b ^ 2" using r assms(2) by (simp_all add: power_mono)
  then show ?thesis
    unfolding r(1) Math_pow_2 using assms(5,6) by (intro rd_range[OF assms(3,4)]) simp_all
qed

lemma pow_4_range:
  assumes "in_range a b x" "0 \<le> a" "is_double lo" "is_double hi" "lo \<le> a ^ 4" "b ^ 4 \<le> hi"
  shows "in_range lo hi (Math_pow x (Fin 4))"
proof -
  obtain r where r: "x = Fin r" "a \<le> r" "r \<le> b" using in_range_Fin[OF assms(1)] by blast
  have "a ^ 4 \<le> r ^ 4" "r ^ 4 \<le> b ^ 4" using r assms(2) by (simp_all add: power_mono)
  then show ?thesis
    unfolding r(1) Math_pow_4 using assms(5,6) by (intro rd_range[OF assms(3,4)]) simp_all
qed

section \<open>Ranges between powers of two\<close>

lemma pow2_mult: "pow2 j * pow2 k = pow2 (j + k)"
  by (simp add: pow2_add)

lemma pow2_divide: "pow2 j / pow2 k = pow2 (j - k)"
  by (simp add: pow2_diff)

lemma rd_pow2:
  assumes "- 1074 \<le> j" "k \<le> 1023" "pow2 j \<le> x" "x \<le> pow2 k"
  shows "in_range (pow2 j) (pow2 k) (rd x)"
proof -
  have "pow2 j \<le> pow2 k" using assms(3,4) by linarith
  then have "j \<le> k" by (simp only: pow2_le_iff)
  then show ?thesis
    using assms by (intro rd_range is_double_pow2) simp_all
qed

lemma mul_pow2:
  assumes "in_range (pow2 j1) (pow2 k1) x" "in_range (pow2 j2) (pow2 k2) y"
    and "- 1074 \<le> j" "k \<le> 1023" "j \<le> j1 + j2" "k1 + k2 \<le> k"
  shows "in_range (pow2 j) (pow2 k) (num_mul x y)"
proof -
  obtain r where r: "x = Fin r" "pow2 j1 \<le> r" "r \<le> pow2 k1"
    using in_range_Fin[OF assms(1)] by blast
  obtain s where s: "y = Fin s" "pow2 j2 \<le> s" "s \<le> pow2 k2"
    using in_range_Fin[OF assms(2)] by blast
  have p: "0 \<le> pow2 j1" "0 \<le> pow2 j2" "0 \<le> pow2 k1" by simp_all
  have r0: "0 \<le> r" and s0: "0 \<le> s" using r(2) s(2) p by linarith+
  have 1: "pow2 j1 * pow2 j2 \<le> r * s" by (rule mult_mono[OF r(2) s(2) r0 p(2)])
  have 2: "r * s \<le> pow2 k1 * pow2 k2" by (rule mult_mono[OF r(3) s(3) p(3) s0])
  have 3: "pow2 j \<le> pow2 j1 * pow2 j2" unfolding pow2_mult pow2_le_iff by (rule assms(5))
  have 4: "pow2 k1 * pow2 k2 \<le> pow2 k" unfolding pow2_mult pow2_le_iff by (rule assms(6))
  have "pow2 j \<le> r * s" "r * s \<le> pow2 k" using 1 2 3 4 by linarith+
  then show ?thesis unfolding r(1) s(1) num_mul.simps by (rule rd_pow2[OF assms(3,4)])
qed

lemma div_pow2:
  assumes "in_range (pow2 j1) (pow2 k1) x" "in_range (pow2 j2) (pow2 k2) y"
    and "- 1074 \<le> j" "k \<le> 1023" "j \<le> j1 - k2" "k1 - j2 \<le> k"
  shows "in_range (pow2 j) (pow2 k) (num_div x y)"
proof -
  obtain r where r: "x = Fin r" "pow2 j1 \<le> r" "r \<le> pow2 k1"
    using in_range_Fin[OF assms(1)] by blast
  obtain s where s: "y = Fin s" "pow2 j2 \<le> s" "s \<le> pow2 k2"
    using in_range_Fin[OF assms(2)] by blast
  have p: "0 \<le> pow2 j1" "0 < pow2 j2" "0 \<le> pow2 k1" by simp_all
  have r0: "0 \<le> r" and spos: "0 < s" using r(2) s(2) p by linarith+
  have 1: "pow2 j1 / pow2 k2 \<le> r / s" by (rule frac_le[OF r0 r(2) spos s(3)])
  have 2: "r / s \<le> pow2 k1 / pow2 j2" by (rule frac_le[OF p(3) r(3) p(2) s(2)])
  have 3: "pow2 j \<le> pow2 j1 / pow2 k2" unfolding pow2_divide pow2_le_iff by (rule assms(5))
  have 4: "pow2 k1 / pow2 j2 \<le> pow2 k" unfolding pow2_divide pow2_le_iff by (rule assms(6))
  have "pow2 j \<le> r / s" "r / s \<le> pow2 k" using 1 2 3 4 by linarith+
  then have "in_range (pow2 j) (pow2 k) (rd (r / s))" by (rule rd_pow2[OF assms(3,4)])
  then show ?thesis unfolding r(1) s(1) using spos by simp
qed

lemma power_pow2:
  assumes "pow2 j1 \<le> r" "r \<le> pow2 k1" "j \<le> j1 * int n" "k1 * int n \<le> k"
  shows "pow2 j \<le> r ^ n" "r ^ n \<le> pow2 k"
proof -
  have p: "0 \<le> pow2 j1" by simp
  then have r0: "0 \<le> r" using assms(1) by linarith
  have 1: "pow2 j1 ^ n \<le> r ^ n" by (rule power_mono[OF assms(1) p])
  have 2: "r ^ n \<le> pow2 k1 ^ n" by (rule power_mono[OF assms(2) r0])
  have 3: "pow2 j \<le> pow2 j1 ^ n" unfolding pow2_power pow2_le_iff by (rule assms(3))
  have 4: "pow2 k1 ^ n \<le> pow2 k" unfolding pow2_power pow2_le_iff by (rule assms(4))
  show "pow2 j \<le> r ^ n" "r ^ n \<le> pow2 k" using 1 2 3 4 by linarith+
qed

lemma cbrt_pow2:
  assumes "in_range (pow2 j1) (pow2 k1) x"
    and "- 1074 \<le> j" "k \<le> 1023" "3 * j \<le> j1" "k1 \<le> 3 * k"
  shows "in_range (pow2 j) (pow2 k) (Math_cbrt x)"
proof -
  obtain r where r: "x = Fin r" "pow2 j1 \<le> r" "r \<le> pow2 k1"
    using in_range_Fin[OF assms(1)] by blast
  have 3: "pow2 j ^ 3 \<le> pow2 j1" unfolding pow2_power pow2_le_iff using assms(4) by simp
  have 4: "pow2 k1 \<le> pow2 k ^ 3" unfolding pow2_power pow2_le_iff using assms(5) by simp
  have "pow2 j ^ 3 \<le> r" "r \<le> pow2 k ^ 3" using r 3 4 by linarith+
  then have "root 3 (pow2 j ^ 3) \<le> root 3 r" "root 3 r \<le> root 3 (pow2 k ^ 3)" by simp_all
  then have "pow2 j \<le> root 3 r" "root 3 r \<le> pow2 k"
    by (simp_all add: odd_real_root_power_cancel)
  then show ?thesis unfolding r(1) Math_cbrt.simps by (rule rd_pow2[OF assms(2,3)])
qed

lemma pow_2_pow2:
  assumes "in_range (pow2 j1) (pow2 k1) x"
    and "- 1074 \<le> j" "k \<le> 1023" "j \<le> 2 * j1" "2 * k1 \<le> k"
  shows "in_range (pow2 j) (pow2 k) (Math_pow x (Fin 2))"
proof -
  obtain r where r: "x = Fin r" "pow2 j1 \<le> r" "r \<le> pow2 k1"
    using in_range_Fin[OF assms(1)] by blast
  have "pow2 j \<le> r ^ 2" "r ^ 2 \<le> pow2 k"
    using power_pow2[OF r(2,3), of j 2 k] assms(4,5) by simp_all
  then show ?thesis unfolding r(1) Math_pow_2 by (rule rd_pow2[OF assms(2,3)])
qed

lemma pow_4_pow2:
  assumes "in_range (pow2 j1) (pow2 k1) x"
    and "- 1074 \<le> j" "k \<le> 1023" "j \<le> 4 * j1" "4 * k1 \<le> k"
  shows "in_range (pow2 j) (pow2 k) (Math_pow x (Fin 4))"
proof -
  obtain r where r: "x = Fin r" "pow2 j1 \<le> r" "r \<le> pow2 k1"
    using in_range_Fin[OF assms(1)] by blast
  have "pow2 j \<le> r ^ 4" "r ^ 4 \<le> pow2 k"
    using power_pow2[OF r(2,3), of j 4 k] assms(4,5) by simp_all
  then show ?thesis unfolding r(1) Math_pow_4 by (rule rd_pow2[OF assms(2,3)])
qed

lemma pow2_1: "pow2 1 = 2"
  by (simp add: pow2_def)

section \<open>The constants\<close>

lemma PI_range: "in_range (pow2 1) (pow2 2) (rd (314159 / 100000))"
  by (rule rd_pow2) (simp_all add: pow2_numeral pow2_1)

lemma four_thirds_range: "in_range (pow2 0) (pow2 1) (num_div (Fin 4) (Fin 3))"
proof -
  have "in_range (pow2 0) (pow2 1) (rd (4 / 3))"
    by (rule rd_pow2) (simp_all add: pow2_1)
  then show ?thesis by simp
qed

lemma four_thirds_PI_range:
  "in_range (pow2 1) (pow2 3) (num_mul (num_div (Fin 4) (Fin 3)) (rd (314159 / 100000)))"
  by (rule mul_pow2[OF four_thirds_range PI_range]) simp_all

lemma Fin_pow2_range: "in_range (pow2 k) (pow2 k) (Fin (pow2 k))"
  by simp

lemma four_PI_range:
  "in_range (pow2 3) (pow2 4) (num_mul (Fin 4) (rd (314159 / 100000)))"
proof -
  have "in_range (pow2 2) (pow2 2) (Fin 4)" by (simp add: pow2_numeral)
  then show ?thesis
    by (rule mul_pow2[OF _ PI_range]) simp_all
qed

lemma sigma_range: "in_range (pow2 (- 25)) (pow2 (- 24)) STEFAN_BOLTZMAN_CONSTANT"
  unfolding STEFAN_BOLTZMAN_CONSTANT_def
  by (rule rd_pow2) (simp_all add: pow2_neg_numeral)

lemma ratio_range: "in_range (pow2 68) (pow2 69) (rd (465 * 10 ^ 18))"
  by (rule rd_pow2) (simp_all add: pow2_numeral)

section \<open>Ranges of the area and the rate\<close>

lemma area_range:
  assumes "in_range (pow2 (3 * j + 3)) (pow2 (3 * k + 1)) v" "- 358 \<le> j" "k \<le> 341"
  shows "in_range (pow2 (2 * j + 3)) (pow2 (2 * k + 4)) (calculateSurfaceArea v)"
proof -
  let ?PI = "rd (314159 / 100000)"
  have q: "in_range (pow2 (3 * j)) (pow2 (3 * k))
      (num_div v (num_mul (num_div (Fin 4) (Fin 3)) ?PI))"
    using assms(2,3)
    by (intro div_pow2[OF assms(1) four_thirds_PI_range]) simp_all
  have r: "in_range (pow2 j) (pow2 k)
      (Math_cbrt (num_div v (num_mul (num_div (Fin 4) (Fin 3)) ?PI)))"
    using assms(2,3) by (intro cbrt_pow2[OF q]) simp_all
  have r2: "in_range (pow2 (2 * j)) (pow2 (2 * k))
      (Math_pow (Math_cbrt (num_div v (num_mul (num_div (Fin 4) (Fin 3)) ?PI))) (Fin 2))"
    using assms(2,3) by (intro pow_2_pow2[OF r]) simp_all
  show ?thesis
    unfolding calculateSurfaceArea_def Let_def using assms(2,3)
    by (intro mul_pow2[OF four_PI_range r2]) simp_all
qed

lemma rate_range:
  assumes "in_range (pow2 c) (pow2 d) area" "in_range (pow2 a) (pow2 b) T"
    and "- 190 \<le> a" "b \<le> 200" "- 200 \<le> c" "d \<le> 200"
  shows "in_range (pow2 (4 * a + c - 94)) (pow2 (4 * b + d - 92)) (calculateEmissionRate area T)"
    and "in_range (pow2 (4 * a + c - 94)) (pow2 (4 * b + d - 92))
           (calculateEmissionRate_v1 area T x)"
proof -
  have sa: "in_range (pow2 (c - 25)) (pow2 (d - 24)) (num_mul STEFAN_BOLTZMAN_CONSTANT area)"
    using assms(3-)
    by (intro mul_pow2[OF sigma_range assms(1)]) simp_all
  have t4: "in_range (pow2 (4 * a)) (pow2 (4 * b)) (Math_pow T (Fin 4))"
    using assms(3-) by (intro pow_4_pow2[OF assms(2)]) simp_all
  have p: "in_range (pow2 (4 * a + c - 25)) (pow2 (4 * b + d - 24))
      (num_mul (num_mul STEFAN_BOLTZMAN_CONSTANT area) (Math_pow T (Fin 4)))"
    using assms(3-) by (intro mul_pow2[OF sa t4]) simp_all
  show "in_range (pow2 (4 * a + c - 94)) (pow2 (4 * b + d - 92)) (calculateEmissionRate area T)"
    unfolding calculateEmissionRate_def using assms(3-)
    by (intro div_pow2[OF p ratio_range]) simp_all
  then show "in_range (pow2 (4 * a + c - 94)) (pow2 (4 * b + d - 92))
           (calculateEmissionRate_v1 area T x)"
    by (simp add: calculateEmissionRate_v1_def calculateEmissionRate_def)
qed

section \<open>Numbers stay numbers\<close>

lemma is_double_1 [simp]: "is_double 1"
  using is_double_pow2[of 0] by simp

lemma num_add_is_number [simp]: "is_number (num_add x y)"
  by (cases x; cases y) (simp_all add: rd_is_number)

lemma num_sub_is_number [simp]: "is_number (num_sub x y)"
  by (cases x; cases y) (simp_all add: rd_is_number)

lemma num_mul_is_number [simp]: "is_number (num_mul x y)"
  by (cases x; cases y) (simp_all add: rd_is_number)

lemma num_div_is_number [simp]: "is_number (num_div x y)"
  by (cases x; cases y) (simp_all add: rd_is_number)

lemma Math_cbrt_is_number [simp]: "is_number x \<Longrightarrow> is_number (Math_cbrt x)"
  by (cases x) (simp_all add: rd_is_number)

lemma Math_pow_is_number [simp]: "is_number (Math_pow x y)"
  by (cases x; cases y) (simp_all add: rd_is_number)

lemma is_number_Fin: "is_number x \<Longrightarrow> x = Fin r \<Longrightarrow> is_double r"
  by simp

section \<open>The fields after a call\<close>

lemma calculateEmissionRate_v1_eq:
  "calculateEmissionRate_v1 a T x = calculateEmissionRate a T"
  by (simp add: calculateEmissionRate_v1_def calculateEmissionRate_def)

lemma calculateEmissionAmount_eq:
  "calculateEmissionAmount s (elapsedTime s t) = emissionAmount s t"
  by (simp add: calculateEmissionAmount_def emissionAmount_def calculateEmissionRate_v1_eq)

lemma update_v1_fields:
  "SourceAccount.balance (fst (updateSourceAndEnvironment_v1 s e t)) =
     num_sub (SourceAccount.balance s) (emissionAmount s t)"
  "Environment_v1.balance (snd (updateSourceAndEnvironment_v1 s e t)) =
     num_add (Environment_v1.balance e) (emissionAmount s t)"
  "lastUpdateTime (fst (updateSourceAndEnvironment_v1 s e t)) = t"
  "emissionRate (fst (updateSourceAndEnvironment_v1 s e t)) = emissionRate s"
  "initialSupply (fst (updateSourceAndEnvironment_v1 s e t)) = initialSupply s"
  by (simp_all add: updateSourceAndEnvironment_v1_def Let_def
      calculateEmissionAmount_eq[symmetric] elapsedTime_def)

lemma update_fields:
  "SourceAccount.balance (fst (updateSourceAndEnvironment s e t g)) =
     num_sub (SourceAccount.balance s) (emissionAmount s t)"
  "Environment.balance (fst (snd (updateSourceAndEnvironment s e t g))) =
     num_add (Environment.balance e) (emissionAmount s t)"
  "levels (fst (snd (updateSourceAndEnvironment s e t g))) =
     add_to_levels (levels e) (normalizedDistribution g) (emissionAmount s t)"
  "snd (snd (updateSourceAndEnvironment s e t g)) = snd (kappaRandom KAPPA 100 g)"
  "lastUpdateTime (fst (updateSourceAndEnvironment s e t g)) = t"
  "emissionRate (fst (updateSourceAndEnvironment s e t g)) = emissionRate s"
  "initialSupply (fst (updateSourceAndEnvironment s e t g)) = initialSupply s"
  by (simp_all add: updateSourceAndEnvironment_def Let_def split_beta emissionAmount_def
      elapsedTime_def normalizedDistribution_def totalDistribution_def levelDistribution_def)

lemma add_to_levels_length:
  "length vs \<le> length ls \<Longrightarrow> length (add_to_levels ls vs e) = length ls"
  by (induction ls vs e rule: add_to_levels.induct) simp_all

lemma add_to_levels_nth:
  "i < length vs \<Longrightarrow> length vs \<le> length ls \<Longrightarrow>
     add_to_levels ls vs e ! i = num_add (ls ! i) (num_mul (vs ! i) e)"
proof (induction ls vs e arbitrary: i rule: add_to_levels.induct)
  case (3 l ls v vs e)
  then show ?case by (cases i) simp_all
qed simp_all

lemma kappaRandom_length [simp]: "length (fst (kappaRandom kappa n g)) = n"
  by (induction n arbitrary: g) (simp_all add: Let_def split_beta)

lemma sdrop_3: "sdrop 3 g = stl (stl (stl g))"
  by (simp add: numeral_3_eq_3)

lemma kappaRandom_rest: "snd (kappaRandom kappa n g) = sdrop (3 * n) g"
proof (induction n arbitrary: g)
  case (Suc n)
  have "sdrop (3 * Suc n) g = sdrop (3 * n) (sdrop 3 g)"
    using sdrop_add[of "3 * n" 3 g] by simp
  then show ?case using Suc by (simp add: Let_def split_beta sdrop_3)
qed simp

lemma levelDistribution_length [simp]: "length (levelDistribution g) = 100"
  by (simp add: levelDistribution_def)

lemma normalizedDistribution_length [simp]: "length (normalizedDistribution g) = 100"
  by (simp add: normalizedDistribution_def)

section \<open>Symmetry in the sign of the balance\<close>

lemma num_neg_neg [simp]: "num_neg (num_neg x) = x"
  by (cases x) simp_all

lemma num_div_neg_left: "num_div (num_neg x) (Fin c) = num_neg (num_div x (Fin c))" if "0 < c"
  using that by (cases x) (auto simp: rd_minus[symmetric])

lemma Math_cbrt_neg: "Math_cbrt (num_neg x) = num_neg (Math_cbrt x)"
  by (cases x) (simp_all add: rd_minus[symmetric] real_root_minus)

lemma Math_pow_2_neg: "Math_pow (num_neg x) (Fin 2) = Math_pow x (Fin 2)"
  by (cases x) (simp_all add: Math_pow_2 is_odd_integer_def)

lemma Math_pow_4_neg: "Math_pow (num_neg x) (Fin 4) = Math_pow x (Fin 4)"
  by (cases x) (simp_all add: Math_pow_4 is_odd_integer_def)

lemma four_thirds_PI_Fin:
  "\<exists>c. num_mul (num_div (Fin 4) (Fin 3)) (rd (314159 / 100000)) = Fin c \<and> 0 < c"
proof -
  obtain c where c: "num_mul (num_div (Fin 4) (Fin 3)) (rd (314159 / 100000)) = Fin c"
    "pow2 1 \<le> c"
    using in_range_Fin[OF four_thirds_PI_range] by blast
  have "0 < c" using c(2) pow2_pos[of 1] by linarith
  then show ?thesis using c(1) by blast
qed

lemma calculateSurfaceArea_neg: "calculateSurfaceArea (num_neg v) = calculateSurfaceArea v"
proof -
  obtain c where c: "num_mul (num_div (Fin 4) (Fin 3)) (rd (314159 / 100000)) = Fin c" "0 < c"
    using four_thirds_PI_Fin by blast
  show ?thesis
    unfolding calculateSurfaceArea_def Let_def c(1)
    by (simp only: num_div_neg_left[OF c(2)] Math_cbrt_neg Math_pow_2_neg)
qed

lemma calculateEmissionRate_neg:
  "calculateEmissionRate a (num_neg T) = calculateEmissionRate a T"
  by (simp add: calculateEmissionRate_def Math_pow_4_neg)

section \<open>The rate at a balance in a known range\<close>

lemma rate_of_balance_range:
  assumes "in_range (pow2 (3 * j + 3)) (pow2 (3 * k + 1)) B" "in_range (pow2 a) (pow2 b) B"
    and "- 100 \<le> j" "k \<le> 90" "- 190 \<le> a" "b \<le> 200"
  shows "in_range (pow2 (4 * a + 2 * j - 91)) (pow2 (4 * b + 2 * k - 88))
           (calculateEmissionRate (calculateSurfaceArea B) B)"
proof -
  have ar: "in_range (pow2 (2 * j + 3)) (pow2 (2 * k + 4)) (calculateSurfaceArea B)"
    using assms(3,4) by (intro area_range[OF assms(1)]) simp_all
  have "in_range (pow2 (4 * a + (2 * j + 3) - 94)) (pow2 (4 * b + (2 * k + 4) - 92))
           (calculateEmissionRate (calculateSurfaceArea B) B)"
    using assms(3-) by (intro rate_range(1)[OF ar assms(2)]) simp_all
  moreover have "4 * a + (2 * j + 3) - 94 = 4 * a + 2 * j - 91"
    "4 * b + (2 * k + 4) - 92 = 4 * b + 2 * k - 88" by simp_all
  ultimately show ?thesis by simp
qed

lemma calculateEmissionRate_balance_neg:
  "calculateEmissionRate (calculateSurfaceArea (num_neg B)) (num_neg B) =
   calculateEmissionRate (calculateSurfaceArea B) B"
  by (simp only: calculateSurfaceArea_neg calculateEmissionRate_neg)

lemma in_range_neg: "in_range (- b) (- a) x \<Longrightarrow> in_range a b (num_neg x)"
  by (cases x) auto

lemma in_range_point: "in_range r r (Fin r)"
  by simp

lemma num_mul_one: "is_number x \<Longrightarrow> num_mul x (Fin 1) = x"
  by (cases x) (simp_all add: rd_double)

lemma num_add_zero_left: "is_number x \<Longrightarrow> num_add (Fin 0) x = x"
  by (cases x) (simp_all add: rd_double)

lemma num_sub_zero: "is_number x \<Longrightarrow> num_sub x (Fin 0) = x"
  by (cases x) (simp_all add: rd_double)

lemma num_add_zero: "is_number x \<Longrightarrow> num_add x (Fin 0) = x"
  by (cases x) (simp_all add: rd_double)

lemma calculateEmissionRate_is_number [simp]: "is_number (calculateEmissionRate a T)"
  by (simp add: calculateEmissionRate_def)

section \<open>Clock readings\<close>

lemma is_double_1000 [simp]: "is_double 1000"
  using is_double_int[of 1000] by simp

lemma elapsed_one_second:
  assumes "lastUpdateTime s = Fin 0"
  shows "elapsedTime s (Fin 1000) = Fin 1"
  by (simp add: elapsedTime_def assms rd_double)

lemma elapsed_zero:
  assumes "lastUpdateTime s = Fin l"
  shows "elapsedTime s (Fin l) = Fin 0"
  by (simp add: elapsedTime_def assms)

lemma elapsed_minus_one_second:
  assumes "lastUpdateTime s = Fin 1000"
  shows "elapsedTime s (Fin 0) = Fin (- 1)"
proof -
  have "rd (- 1000) = Fin (- 1000)" by (intro rd_double) simp
  moreover have "rd (- 1) = Fin (- 1)" by (intro rd_double) simp
  ultimately show ?thesis by (simp add: elapsedTime_def assms)
qed

lemma emissionAmount_one_second:
  assumes "lastUpdateTime s = Fin 0"
  shows "emissionAmount s (Fin 1000) =
    calculateEmissionRate (calculateSurfaceArea (SourceAccount.balance s)) (SourceAccount.balance s)"
  by (simp add: emissionAmount_def elapsed_one_second[OF assms] num_mul_one)

lemma init_fields:
  "SourceAccount.balance (initializeSourceAccount x now) = x"
  "lastUpdateTime (initializeSourceAccount x now) = now"
  "emissionRate (initializeSourceAccount x now) = calculateEmissionRate (calculateSurfaceArea x) x"
  "initialSupply (initializeSourceAccount x now) = x"
  "SourceAccount.balance (initializeSourceAccount_v1 x now) = x"
  "lastUpdateTime (initializeSourceAccount_v1 x now) = now"
  "emissionRate (initializeSourceAccount_v1 x now) =
     calculateEmissionRate (calculateSurfaceArea x) x"
  "initialSupply (initializeSourceAccount_v1 x now) = x"
  by (simp_all add: initializeSourceAccount_def initializeSourceAccount_v1_def Let_def
      calculateEmissionRate_v1_eq)

lemma init_env_fields:
  "Environment.balance initializeEnvironment = Fin 0"
  "levels initializeEnvironment = replicate 100 (Fin 0)"
  "Environment_v1.balance initializeEnvironment_v1 = Fin 0"
  by (simp_all add: initializeEnvironment_def initializeEnvironment_v1_def)

section \<open>A supply of \<open>10^9\<close>\<close>

lemma is_double_1e9 [simp]: "is_double (10 ^ 9)"
  using is_double_int[of "10 ^ 9"] by simp

lemma rate_1e9:
  "in_range (pow2 41) (pow2 52)
     (calculateEmissionRate (calculateSurfaceArea (Fin (10 ^ 9))) (Fin (10 ^ 9)))"
proof -
  have 1: "in_range (pow2 (3 * 8 + 3)) (pow2 (3 * 10 + 1)) (Fin (10 ^ 9))"
    by (simp add: pow2_numeral)
  have 2: "in_range (pow2 29) (pow2 30) (Fin (10 ^ 9))"
    by (simp add: pow2_numeral)
  show ?thesis using rate_of_balance_range[OF 1 2] by simp
qed

lemma balance_1e9:
  assumes "SourceAccount.balance s = Fin (10 ^ 9)" "lastUpdateTime s = Fin 0"
  shows "in_range (- pow2 52) (- pow2 40)
           (num_sub (SourceAccount.balance s) (emissionAmount s (Fin 1000)))"
proof -
  have "in_range (10 ^ 9) (10 ^ 9) (SourceAccount.balance s)" by (simp add: assms(1))
  moreover have "in_range (pow2 41) (pow2 52) (emissionAmount s (Fin 1000))"
    unfolding emissionAmount_one_second[OF assms(2)] assms(1) by (rule rate_1e9)
  moreover have "is_double (- pow2 52)" "is_double (- pow2 40)"
    by (simp_all add: is_double_pow2 del: pow2_52)
  moreover have "- pow2 52 \<le> 10 ^ 9 - pow2 52" by simp
  moreover have "(10 ^ 9 :: real) - pow2 41 \<le> - pow2 40" by (simp add: pow2_numeral)
  ultimately show ?thesis by (rule sub_range)
qed

lemma in_range_neg_less:
  assumes "in_range (- b) (- pow2 k) x"
  shows "num_less x (Fin 0)"
proof -
  obtain r where r: "x = Fin r" "r \<le> - pow2 k" using in_range_Fin[OF assms] by blast
  have "0 < pow2 k" by simp
  then have "r < 0" using r(2) by linarith
  then show ?thesis by (simp add: r(1))
qed

lemma in_range_pos_less:
  assumes "in_range (pow2 k) b x"
  shows "num_less (Fin 0) x"
proof -
  obtain r where r: "x = Fin r" "pow2 k \<le> r" using in_range_Fin[OF assms] by blast
  have "0 < pow2 k" by simp
  then have "0 < r" using r(2) by linarith
  then show ?thesis by (simp add: r(1))
qed

lemma rate_after_1e9:
  assumes "in_range (- pow2 52) (- pow2 40) B"
  shows "in_range (pow2 93) (pow2 154) (calculateEmissionRate (calculateSurfaceArea B) B)"
proof -
  have n: "in_range (pow2 40) (pow2 52) (num_neg B)" by (rule in_range_neg[OF assms])
  have 1: "in_range (pow2 (3 * 12 + 3)) (pow2 (3 * 17 + 1)) (num_neg B)"
    by (rule in_range_weaken[OF n]) simp_all
  have "in_range (pow2 93) (pow2 154)
     (calculateEmissionRate (calculateSurfaceArea (num_neg B)) (num_neg B))"
    using rate_of_balance_range[OF 1 n] by simp
  then show ?thesis by (simp only: calculateEmissionRate_balance_neg)
qed

lemma in_range_disjoint:
  "in_range a b x \<Longrightarrow> in_range c d y \<Longrightarrow> b < c \<Longrightarrow> x \<noteq> y"
  by (cases x; cases y) auto

section \<open>Values that round to a neighbour\<close>

lemma one_less_pow2 [simp]: "1 < pow2 k \<longleftrightarrow> 0 < k"
  using pow2_less_iff[of 0 k] unfolding pow2_0 .

lemma one_le_pow2 [simp]: "1 \<le> pow2 k \<longleftrightarrow> 0 \<le> k"
  using pow2_le_iff[of 0 k] unfolding pow2_0 .

lemma pow2_less_one [simp]: "pow2 k < 1 \<longleftrightarrow> k < 0"
  using pow2_less_iff[of k 0] unfolding pow2_0 .

lemma pow2_le_one [simp]: "pow2 k \<le> 1 \<longleftrightarrow> k \<le> 0"
  using pow2_le_iff[of k 0] unfolding pow2_0 .

lemma rne_near:
  assumes "\<bar>q - of_int n\<bar> < 1 / 2"
  shows "rne q = n"
proof -
  have "\<bar>real_of_int (rne q) - of_int n\<bar> < 1" using rne_err[of q] assms by linarith
  then have "\<bar>real_of_int (rne q - n)\<bar> < 1" by simp
  then have "\<bar>rne q - n\<bar> < 1" by linarith
  then show ?thesis by simp
qed

lemma rd_real_near:
  assumes "\<bar>x - of_int n * pow2 (ulp_exp x)\<bar> < pow2 (ulp_exp x) / 2"
  shows "rd_real x = of_int n * pow2 (ulp_exp x)"
proof -
  let ?p = "pow2 (ulp_exp x)"
  have "x / ?p - of_int n = (x - of_int n * ?p) / ?p" by (simp add: field_simps)
  then have "\<bar>x / ?p - of_int n\<bar> = \<bar>x - of_int n * ?p\<bar> / ?p" by (simp add: abs_divide)
  also have "\<dots> < (?p / 2) / ?p" using assms by (intro divide_strict_right_mono) simp_all
  also have "\<dots> = 1 / 2" by simp
  finally have "rne (x / ?p) = n" by (rule rne_near)
  then show ?thesis by (simp add: rd_real_def)
qed

lemma ulp_exp_binade:
  assumes "pow2 k \<le> \<bar>x\<bar>" "\<bar>x\<bar> < pow2 (k + 1)" "- 1022 \<le> k"
  shows "ulp_exp x = k - 52"
  using floor_log2_eq[OF assms(1,2)] assms(3) by (simp add: ulp_exp_def)

lemma rd_real_one: "rd_real y = 1 \<Longrightarrow> rd y = Fin 1"
proof -
  assume y: "rd_real y = 1"
  have "1 < pow2 1024" by simp
  then have "\<not> pow2 1024 \<le> 1" "\<not> 1 \<le> - pow2 1024" by linarith+
  then show ?thesis unfolding rd_def y by simp
qed

lemma rd_one_minus:
  assumes "0 \<le> d" "d \<le> pow2 (- 55)"
  shows "rd (1 - d) = Fin 1"
proof (cases "d = 0")
  case True
  then show ?thesis by (simp add: rd_double)
next
  case False
  have d: "0 < d" "d < pow2 (- 54)" "d \<le> 1 / 2"
  proof -
    show "0 < d" using assms(1) False by simp
    have "pow2 (- 55) < pow2 (- 54)" by simp
    then show "d < pow2 (- 54)" using assms(2) by linarith
    have "pow2 (- 55) \<le> pow2 (- 1)" by simp
    moreover have "pow2 (- 1) = 1 / 2" using pow2_minus[of 1] by (simp add: pow2_1)
    ultimately show "d \<le> 1 / 2" using assms(2) by linarith
  qed
  have h: "pow2 (- 1) = 1 / 2" using pow2_minus[of 1] by (simp add: pow2_1)
  have "pow2 (- 1) \<le> \<bar>1 - d\<bar>" "\<bar>1 - d\<bar> < pow2 (- 1 + 1)"
    using d h by simp_all
  then have E: "ulp_exp (1 - d) = - 53" using ulp_exp_binade[of "- 1" "1 - d"] by simp
  have one: "of_int (2 ^ 53) * pow2 (- 53) = 1" by (simp add: pow2_neg_numeral)
  have "pow2 (- 53) / 2 = pow2 (- 54)" by (simp add: pow2_neg_numeral)
  then have "\<bar>(1 - d) - of_int (2 ^ 53) * pow2 (ulp_exp (1 - d))\<bar> < pow2 (ulp_exp (1 - d)) / 2"
    unfolding E one using d by simp
  then have "rd_real (1 - d) = 1" using rd_real_near[of "1 - d" "2 ^ 53"] unfolding E one by simp
  then show ?thesis by (rule rd_real_one)
qed

lemma rd_one_plus:
  assumes "1 \<le> y" "y < 1 + pow2 (- 53)"
  shows "rd y = Fin 1"
proof -
  have h: "pow2 (- 53) \<le> 1" by simp
  have "\<bar>y\<bar> = y" "y < 2" using assms h by linarith+
  then have "pow2 0 \<le> \<bar>y\<bar>" "\<bar>y\<bar> < pow2 (0 + 1)"
    using assms(1) by (simp_all add: pow2_1)
  then have E: "ulp_exp y = - 52" using ulp_exp_binade[of 0 y] by simp
  have one: "of_int (2 ^ 52) * pow2 (- 52) = 1" by (simp add: pow2_neg_numeral)
  have "pow2 (- 52) / 2 = pow2 (- 53)" by (simp add: pow2_neg_numeral)
  then have "\<bar>y - of_int (2 ^ 52) * pow2 (ulp_exp y)\<bar> < pow2 (ulp_exp y) / 2"
    unfolding E one using assms by simp
  then have "rd_real y = 1" using rd_real_near[of y "2 ^ 52"] unfolding E one by simp
  then show ?thesis by (rule rd_real_one)
qed

section \<open>The sign of a rounded difference\<close>

lemma num_sub_less_zero:
  assumes "is_double b" "is_double m"
  shows "num_less (num_sub (Fin b) (Fin m)) (Fin 0) \<longleftrightarrow> b < m"
proof -
  have fb: "rd_real b = b" and fm: "rd_real m = m" using assms by (simp_all add: is_double_iff)
  have sgn: "rd_real (b - m) < 0 \<longleftrightarrow> b < m"
  proof
    assume "rd_real (b - m) < 0"
    then show "b < m" using rd_real_nonneg[of "b - m"] by (cases "b < m") simp_all
  next
    assume "b < m"
    then show "rd_real (b - m) < 0" by (rule float_diff_sign[OF fb fm])
  qed
  show ?thesis
  proof (cases "b - m" rule: rd_cases)
    case fin
    then show ?thesis using sgn by simp
  next
    case pinf
    have "0 < pow2 1024" by simp
    then have "\<not> rd_real (b - m) < 0" using pinf(2) by linarith
    then show ?thesis using pinf(1) sgn by simp
  next
    case ninf
    have "0 < pow2 1024" by simp
    then have "rd_real (b - m) < 0" using ninf(2) by linarith
    then show ?thesis using ninf(1) sgn by simp
  qed
qed

section \<open>A supply of 1\<close>

lemma rate_1:
  "in_range (pow2 (- 93)) (pow2 (- 88))
     (calculateEmissionRate (calculateSurfaceArea (Fin 1)) (Fin 1))"
proof -
  have 1: "in_range (pow2 (3 * (- 1) + 3)) (pow2 (3 * 0 + 1)) (Fin 1)"
    by (simp add: pow2_1)
  have 2: "in_range (pow2 0) (pow2 0) (Fin 1)" by simp
  show ?thesis using rate_of_balance_range[OF 1 2] by simp
qed

lemma source_1_unchanged:
  assumes "SourceAccount.balance s = Fin 1" "lastUpdateTime s = Fin 0"
  shows "num_sub (SourceAccount.balance s) (emissionAmount s (Fin 1000)) = Fin 1"
    and "in_range (pow2 (- 93)) (pow2 (- 88)) (emissionAmount s (Fin 1000))"
proof -
  show r: "in_range (pow2 (- 93)) (pow2 (- 88)) (emissionAmount s (Fin 1000))"
    unfolding emissionAmount_one_second[OF assms(2)] assms(1) by (rule rate_1)
  obtain m where m: "emissionAmount s (Fin 1000) = Fin m" "pow2 (- 93) \<le> m" "m \<le> pow2 (- 88)"
    using in_range_Fin[OF r] by blast
  have "0 < pow2 (- 93)" by simp
  then have "0 \<le> m" using m(2) by linarith
  moreover have "pow2 (- 88) \<le> pow2 (- 55)" by simp
  then have "m \<le> pow2 (- 55)" using m(3) by linarith
  ultimately show "num_sub (SourceAccount.balance s) (emissionAmount s (Fin 1000)) = Fin 1"
    unfolding assms(1) m(1) num_sub.simps by (rule rd_one_minus)
qed

lemma rd_Fin: "rd x = Fin r \<Longrightarrow> r = rd_real x"
  by (simp add: rd_def split: if_splits)

lemma emissionAmount_is_number [simp]: "is_number (emissionAmount s t)"
  by (simp add: emissionAmount_def)

lemma num_sub_rel_err:
  assumes "is_double b" "is_double m" "num_sub (Fin b) (Fin m) = Fin r"
  shows "\<bar>r - (b - m)\<bar> \<le> \<bar>b - m\<bar> / 2 ^ 53"
proof -
  have "r = rd_real (b - m)" using assms(3) by (simp add: rd_Fin)
  then show ?thesis
    using float_diff_rel_err[of b m] assms(1,2) by (simp add: is_double_iff)
qed

lemma num_add_rel_err:
  assumes "is_double b" "is_double m" "num_add (Fin b) (Fin m) = Fin r"
  shows "\<bar>r - (b + m)\<bar> \<le> \<bar>b + m\<bar> / 2 ^ 53"
proof -
  have "r = rd_real (b + m)" using assms(3) by (simp add: rd_Fin)
  then show ?thesis
    using float_sum_rel_err[of b m] assms(1,2) by (simp add: is_double_iff)
qed

lemma emission_1e9:
  assumes "SourceAccount.balance s = Fin (10 ^ 9)" "lastUpdateTime s = Fin 0"
  shows "\<exists>m. emissionAmount s (Fin 1000) = Fin m \<and> 10 ^ 9 < m"
proof -
  have "in_range (pow2 41) (pow2 52) (emissionAmount s (Fin 1000))"
    unfolding emissionAmount_one_second[OF assms(2)] assms(1) by (rule rate_1e9)
  then obtain m where m: "emissionAmount s (Fin 1000) = Fin m" "pow2 41 \<le> m"
    using in_range_Fin by blast
  have "(10 ^ 9 :: real) < pow2 41" by (simp add: pow2_numeral)
  then have "10 ^ 9 < m" using m(2) by linarith
  then show ?thesis using m(1) by blast
qed

section \<open>The surface area at every volume\<close>

lemma is_double_small_dyadic:
  assumes "\<bar>m\<bar> < 2 ^ 53" "- 1074 \<le> e" "e \<le> 0"
  shows "is_double (of_int m * pow2 e)"
proof -
  have m: "\<bar>real_of_int m\<bar> < 2 ^ 53"
    using assms(1) by (metis of_int_abs of_int_less_numeral_power_cancel_iff)
  have "pow2 e \<le> 1" using assms(3) by simp
  then have "\<bar>real_of_int m\<bar> * pow2 e \<le> \<bar>real_of_int m\<bar> * 1"
    by (intro mult_left_mono) simp_all
  then have "\<bar>real_of_int m * pow2 e\<bar> < 2 ^ 53" using m by (simp add: abs_mult)
  moreover have "(2 :: real) ^ 53 < pow2 1024" using pow2_less_iff[of 53 1024] by simp
  ultimately have "\<bar>real_of_int m * pow2 e\<bar> < pow2 1024" by linarith
  then show ?thesis unfolding is_double_iff using float_intro[OF assms(1,2)] by simp
qed

lemma is_double_21_16: "is_double (21 / 16)"
proof -
  have e: "real_of_int 21 * pow2 (- 4) = 21 / 16" by (simp add: pow2_neg_numeral)
  show ?thesis using is_double_small_dyadic[of 21 "- 4"] unfolding e by simp
qed

lemma is_double_25_8: "is_double (25 / 8)"
proof -
  have e: "real_of_int 25 * pow2 (- 3) = 25 / 8" by (simp add: pow2_neg_numeral)
  show ?thesis using is_double_small_dyadic[of 25 "- 3"] unfolding e by simp
qed

lemma is_double_525_128: "is_double (525 / 128)"
proof -
  have e: "real_of_int 525 * pow2 (- 7) = 525 / 128" by (simp add: pow2_neg_numeral)
  show ?thesis using is_double_small_dyadic[of 525 "- 7"] unfolding e by simp
qed

lemma four_thirds_PI_tight:
  "in_range (525 / 128) (pow2 3)
     (num_mul (num_div (Fin 4) (Fin 3)) (rd (314159 / 100000)))"
proof -
  have 1: "in_range (21 / 16) (pow2 1) (rd (4 / 3))"
    by (rule rd_range[OF is_double_21_16 is_double_pow2]) (simp_all add: pow2_1)
  have 2: "in_range (25 / 8) (pow2 2) (rd (314159 / 100000))"
    by (rule rd_range[OF is_double_25_8 is_double_pow2]) (simp_all add: pow2_numeral)
  have "in_range (525 / 128) (pow2 3) (num_mul (rd (4 / 3)) (rd (314159 / 100000)))"
    by (rule mul_range[OF 1 2 _ _ is_double_525_128 is_double_pow2])
       (simp_all add: pow2_numeral pow2_1)
  then show ?thesis by simp
qed

lemma rd_tiny:
  assumes "\<bar>x\<bar> < pow2 (- 1075)"
  shows "rd x = Fin 0"
proof (cases "x = 0")
  case True
  then show ?thesis by simp
next
  case False
  have "pow2 (- 1075) < pow2 (- 1022)" by simp
  then have "\<bar>x\<bar> < pow2 (- 1022)" using assms by linarith
  then have E: "ulp_exp x = - 1074" using False by (rule ulp_exp_subnormal)
  have "pow2 (- 1074) / 2 = pow2 (- 1075)" using pow2_add[of "- 1075" 1] by (simp add: pow2_1)
  then have "\<bar>x - of_int 0 * pow2 (ulp_exp x)\<bar> < pow2 (ulp_exp x) / 2"
    unfolding E using assms by simp
  then have "rd_real x = 0" using rd_real_near[of x 0] by simp
  then show ?thesis using pow2_pos[of 1024] by (simp add: rd_def)
qed

lemma area_of_zero_quotient:
  assumes "num_div v (num_mul (num_div (Fin 4) (Fin 3)) (rd (314159 / 100000))) = Fin 0"
  shows "calculateSurfaceArea v = Fin 0"
proof -
  obtain p where p: "num_mul (Fin 4) (rd (314159 / 100000)) = Fin p"
    using in_range_Fin[OF four_PI_range] by blast
  show ?thesis
    unfolding calculateSurfaceArea_def Let_def assms p by (simp add: Math_pow_2)
qed

lemma area_tiny:
  assumes "\<bar>x\<bar> \<le> pow2 (- 1073)"
  shows "calculateSurfaceArea (Fin x) = Fin 0"
proof -
  obtain c where c: "num_mul (num_div (Fin 4) (Fin 3)) (rd (314159 / 100000)) = Fin c"
    "525 / 128 \<le> c"
    using in_range_Fin[OF four_thirds_PI_tight] by blast
  have cpos: "0 < c" "4 < c" using c(2) by simp_all
  have "\<bar>x / c\<bar> = \<bar>x\<bar> / c" using cpos by (simp add: abs_divide)
  also have "\<dots> \<le> pow2 (- 1073) / c" using assms cpos by (intro divide_right_mono) simp_all
  also have "\<dots> < pow2 (- 1073) / 4" using cpos by (intro divide_strict_left_mono) simp_all
  also have "\<dots> = pow2 (- 1075)" using pow2_add[of "- 1075" 2] by (simp add: pow2_numeral)
  finally have "rd (x / c) = Fin 0" by (rule rd_tiny)
  then have "num_div (Fin x) (Fin c) = Fin 0" using cpos by simp
  then show ?thesis using area_of_zero_quotient[of "Fin x"] c(1) by simp
qed

lemma area_nonneg_range:
  assumes "0 \<le> x" "x \<le> pow2 1024"
  shows "in_range 0 (pow2 686) (calculateSurfaceArea (Fin x))"
proof -
  let ?PI = "rd (314159 / 100000)"
  have v: "in_range 0 (pow2 1024) (Fin x)" using assms by simp
  have q: "in_range 0 (pow2 1023) (num_div (Fin x) (num_mul (num_div (Fin 4) (Fin 3)) ?PI))"
    by (rule div_range[OF v four_thirds_PI_range _ _ is_double_0 is_double_pow2])
       (simp_all add: pow2_diff[symmetric])
  have r: "in_range 0 (pow2 341)
      (Math_cbrt (num_div (Fin x) (num_mul (num_div (Fin 4) (Fin 3)) ?PI)))"
    by (rule cbrt_range[OF q is_double_0 is_double_pow2]) (simp_all add: pow2_power)
  have r2: "in_range 0 (pow2 682)
      (Math_pow (Math_cbrt (num_div (Fin x) (num_mul (num_div (Fin 4) (Fin 3)) ?PI))) (Fin 2))"
    by (rule pow_2_range[OF r _ is_double_0 is_double_pow2]) (simp_all add: pow2_power)
  have "in_range 0 (pow2 686) (num_mul (num_mul (Fin 4) ?PI)
      (Math_pow (Math_cbrt (num_div (Fin x) (num_mul (num_div (Fin 4) (Fin 3)) ?PI))) (Fin 2)))"
    by (rule mul_range[OF four_PI_range r2 _ _ is_double_0 is_double_pow2])
       (simp_all add: pow2_add[symmetric])
  then show ?thesis by (simp add: calculateSurfaceArea_def Let_def)
qed

lemma is_double_less: "is_double x \<Longrightarrow> \<bar>x\<bar> < pow2 1024"
  by (simp add: is_double_iff)

lemma area_nonneg:
  assumes "is_double x"
  shows "in_range 0 (pow2 686) (calculateSurfaceArea (Fin x))"
proof (cases "0 \<le> x")
  case True
  then show ?thesis using is_double_less[OF assms] by (intro area_nonneg_range) simp_all
next
  case False
  then have "in_range 0 (pow2 686) (calculateSurfaceArea (Fin (- x)))"
    using is_double_less[OF assms] by (intro area_nonneg_range) simp_all
  then show ?thesis using calculateSurfaceArea_neg[of "Fin x"] by simp
qed

lemma area_pos_range:
  assumes "pow2 (- 1071) \<le> x" "x \<le> pow2 1024"
  shows "in_range (pow2 (- 713)) (pow2 686) (calculateSurfaceArea (Fin x))"
proof -
  have "in_range (pow2 (3 * (- 358) + 3)) (pow2 (3 * 341 + 1)) (Fin x)"
    using assms by simp
  then have "in_range (pow2 (2 * (- 358) + 3)) (pow2 (2 * 341 + 4)) (calculateSurfaceArea (Fin x))"
    by (rule area_range) simp_all
  then show ?thesis by simp
qed

lemma area_neg_range:
  assumes "is_double x" "x \<le> - pow2 (- 1071)"
  shows "in_range (pow2 (- 713)) (pow2 686) (calculateSurfaceArea (Fin x))"
proof -
  have "in_range (pow2 (- 713)) (pow2 686) (calculateSurfaceArea (Fin (- x)))"
    using is_double_less[OF assms(1)] assms(2) by (intro area_pos_range) simp_all
  then show ?thesis using calculateSurfaceArea_neg[of "Fin x"] by simp
qed

lemma area_1000: "in_range (pow2 7) (pow2 10) (calculateSurfaceArea (Fin 1000))"
proof -
  have "in_range (pow2 (3 * 2 + 3)) (pow2 (3 * 3 + 1)) (Fin 1000)"
    by (simp add: pow2_numeral)
  then have "in_range (pow2 (2 * 2 + 3)) (pow2 (2 * 3 + 4)) (calculateSurfaceArea (Fin 1000))"
    by (rule area_range) simp_all
  then show ?thesis by simp
qed

section \<open>The sign of the rate and of the amount\<close>

lemma rd_nonneg: "0 \<le> x \<Longrightarrow> nonneg_or_nan (rd x)"
  by (erule rd_nonneg_cases) simp_all

lemma rd_nonneg_num: "0 \<le> x \<Longrightarrow> nonneg_num (rd x)"
  by (erule rd_nonneg_cases) simp_all

lemma rd_nonpos: "x \<le> 0 \<Longrightarrow> nonneg_or_nan (num_neg (rd x))"
  using rd_nonneg[of "- x"] by (simp add: rd_minus)

lemma nonneg_num_imp: "nonneg_num x \<Longrightarrow> nonneg_or_nan x"
  by (cases x) simp_all

lemma Math_pow_2_nonneg: "nonneg_or_nan (Math_pow x (Fin 2))"
  by (cases x) (simp_all add: Math_pow_2 rd_nonneg is_odd_integer_def)

lemma Math_pow_4_nonneg: "nonneg_or_nan (Math_pow x (Fin 4))"
  by (cases x) (simp_all add: Math_pow_4 rd_nonneg is_odd_integer_def)

lemma num_mul_nonneg:
  "nonneg_or_nan x \<Longrightarrow> nonneg_or_nan y \<Longrightarrow> nonneg_or_nan (num_mul x y)"
  by (cases x; cases y) (simp_all add: rd_nonneg)

lemma num_div_nonneg:
  "nonneg_or_nan x \<Longrightarrow> 0 < c \<Longrightarrow> nonneg_or_nan (num_div x (Fin c))"
  by (cases x) (simp_all add: rd_nonneg)

lemma in_range_nonneg: "in_range (pow2 k) b x \<Longrightarrow> nonneg_or_nan x"
proof -
  assume "in_range (pow2 k) b x"
  then obtain r where r: "x = Fin r" "pow2 k \<le> r" using in_range_Fin by blast
  have "0 < pow2 k" by simp
  then have "0 \<le> r" using r(2) by linarith
  then show ?thesis by (simp add: r(1))
qed

lemma in_range_pos: "in_range (pow2 k) b x \<Longrightarrow> \<exists>r. x = Fin r \<and> 0 < r"
proof -
  assume "in_range (pow2 k) b x"
  then obtain r where r: "x = Fin r" "pow2 k \<le> r" using in_range_Fin by blast
  have "0 < pow2 k" by simp
  then have "0 < r" using r(2) by linarith
  then show ?thesis using r(1) by blast
qed

lemma area_sign: "nonneg_or_nan (calculateSurfaceArea v)"
  unfolding calculateSurfaceArea_def Let_def
  by (intro num_mul_nonneg in_range_nonneg[OF four_PI_range] Math_pow_2_nonneg)

lemma rate_sign': "nonneg_or_nan a \<Longrightarrow> nonneg_or_nan (calculateEmissionRate a T)"
proof -
  assume a: "nonneg_or_nan a"
  obtain c where c: "rd (465 * 10 ^ 18) = Fin c" "0 < c"
    using in_range_pos[OF ratio_range] by blast
  show ?thesis
    unfolding calculateEmissionRate_def c(1)
    by (intro num_div_nonneg num_mul_nonneg in_range_nonneg[OF sigma_range] a
        Math_pow_4_nonneg c(2))
qed

lemma rate_sign: "nonneg_or_nan (calculateEmissionRate (calculateSurfaceArea B) B)"
  by (rule rate_sign'[OF area_sign])

lemma num_mul_nonpos:
  "nonneg_or_nan x \<Longrightarrow> nonneg_or_nan (num_neg y) \<Longrightarrow> \<not> num_less (Fin 0) (num_mul x y)"
proof (cases x; cases y)
  fix a b
  assume h: "nonneg_or_nan x" "nonneg_or_nan (num_neg y)" "x = Fin a" "y = Fin b"
  then have "a * b \<le> 0" by (simp add: mult_nonneg_nonpos)
  then have le: "rd_real (a * b) \<le> 0" by (rule rd_real_nonpos)
  have "0 < pow2 1024" by simp
  then have "\<not> pow2 1024 \<le> rd_real (a * b)" using le by linarith
  then show ?thesis using le h(3,4) by (simp add: rd_def)
qed auto

lemma elapsed_nonpos:
  assumes "lastUpdateTime s = Fin l" "c \<le> l"
  shows "nonneg_or_nan (num_neg (elapsedTime s (Fin c)))"
proof -
  have "nonneg_or_nan (num_neg (rd (c - l)))" using assms(2) by (intro rd_nonpos) simp
  then have "nonneg_or_nan (num_neg (num_div (rd (c - l)) (Fin 1000)))"
  proof (cases "rd (c - l)")
    case (Fin d)
    then have "d / 1000 \<le> 0" using \<open>nonneg_or_nan (num_neg (rd (c - l)))\<close> by simp
    then show ?thesis using Fin rd_nonpos[of "d / 1000"] by simp
  qed simp_all
  then show ?thesis by (simp add: elapsedTime_def assms(1))
qed

lemma emission_nonpos:
  assumes "lastUpdateTime s = Fin l" "c \<le> l"
  shows "\<not> num_less (Fin 0) (emissionAmount s (Fin c))"
  unfolding emissionAmount_def Let_def
  by (rule num_mul_nonpos[OF rate_sign elapsed_nonpos[OF assms]])

lemma calculateEmissionAmount_unfold:
  "calculateEmissionAmount s el =
     num_mul (calculateEmissionRate (calculateSurfaceArea (SourceAccount.balance s))
        (SourceAccount.balance s)) el"
  by (simp add: calculateEmissionAmount_def calculateEmissionRate_v1_eq)

lemma amount_nonpos:
  assumes "e \<le> 0"
  shows "\<not> num_less (Fin 0) (calculateEmissionAmount s (Fin e))"
  unfolding calculateEmissionAmount_unfold
  using assms by (intro num_mul_nonpos[OF rate_sign]) simp

lemma rd_neg_less:
  assumes "x \<le> - pow2 (- 1074)"
  shows "num_less (rd x) (Fin 0)"
proof -
  have "rd_real (- pow2 (- 1074)) = - pow2 (- 1074)"
    by (simp add: rd_real_minus pow2_float)
  then have "rd_real x \<le> - pow2 (- 1074)" using assms by (rule anchor_upper)
  moreover have "0 < pow2 (- 1074)" by simp
  ultimately have neg: "rd_real x < 0" by linarith
  have "0 < pow2 1024" by simp
  then have "\<not> pow2 1024 \<le> rd_real x" using neg by linarith
  then show ?thesis using neg by (simp add: rd_def)
qed

lemma num_mul_minus_one: "is_number x \<Longrightarrow> num_mul x (Fin (- 1)) = num_neg x"
  by (cases x) (simp_all add: rd_minus rd_double)

section \<open>When the rate is finite\<close>

lemma area_upper:
  assumes "0 \<le> x" "x \<le> pow2 (3 * k + 1)" "- 300 \<le> k" "k \<le> 341"
  shows "in_range 0 (pow2 (2 * k + 4)) (calculateSurfaceArea (Fin x))"
proof -
  let ?PI = "rd (314159 / 100000)"
  have v: "in_range 0 (pow2 (3 * k + 1)) (Fin x)" using assms by simp
  have q: "in_range 0 (pow2 (3 * k)) (num_div (Fin x) (num_mul (num_div (Fin 4) (Fin 3)) ?PI))"
    using assms(3,4)
    by (intro div_range[OF v four_thirds_PI_range _ _ is_double_0 is_double_pow2])
       (simp_all add: pow2_diff[symmetric])
  have r: "in_range 0 (pow2 k)
      (Math_cbrt (num_div (Fin x) (num_mul (num_div (Fin 4) (Fin 3)) ?PI)))"
    using assms(3,4)
    by (intro cbrt_range[OF q is_double_0 is_double_pow2]) (simp_all add: pow2_power)
  have r2: "in_range 0 (pow2 (2 * k))
      (Math_pow (Math_cbrt (num_div (Fin x) (num_mul (num_div (Fin 4) (Fin 3)) ?PI))) (Fin 2))"
    using assms(3,4)
    by (intro pow_2_range[OF r _ is_double_0 is_double_pow2]) (simp_all add: pow2_power)
  have "in_range 0 (pow2 (2 * k + 4)) (num_mul (num_mul (Fin 4) ?PI)
      (Math_pow (Math_cbrt (num_div (Fin x) (num_mul (num_div (Fin 4) (Fin 3)) ?PI))) (Fin 2)))"
    using assms(3,4)
    by (intro mul_range[OF four_PI_range r2 _ _ is_double_0 is_double_pow2])
       (simp_all add: pow2_add[symmetric])
  then show ?thesis by (simp add: calculateSurfaceArea_def Let_def)
qed

lemma rate_upper:
  assumes "in_range 0 (pow2 d) a" "0 \<le> x" "x \<le> pow2 b" "- 200 \<le> d" "0 \<le> b"
    "b \<le> 255" "4 * b + d \<le> 1040"
  shows "in_range 0 (pow2 (4 * b + d - 92)) (calculateEmissionRate a (Fin x))"
proof -
  have sa: "in_range 0 (pow2 (d - 24)) (num_mul STEFAN_BOLTZMAN_CONSTANT a)"
    using assms(4-)
    by (intro mul_range[OF sigma_range assms(1) _ _ is_double_0 is_double_pow2])
       (simp_all add: pow2_add[symmetric])
  have T: "in_range 0 (pow2 b) (Fin x)" using assms(2,3) by simp
  have t4: "in_range 0 (pow2 (4 * b)) (Math_pow (Fin x) (Fin 4))"
    using assms(4-)
    by (intro pow_4_range[OF T _ is_double_0 is_double_pow2]) (simp_all add: pow2_power)
  have p: "in_range 0 (pow2 (4 * b + d - 24))
      (num_mul (num_mul STEFAN_BOLTZMAN_CONSTANT a) (Math_pow (Fin x) (Fin 4)))"
    using assms(4-)
    by (intro mul_range[OF sa t4 _ _ is_double_0 is_double_pow2])
       (simp_all add: pow2_add[symmetric])
  show ?thesis
    unfolding calculateEmissionRate_def using assms(4-)
    by (intro div_range[OF p ratio_range _ _ is_double_0 is_double_pow2])
       (simp_all add: pow2_diff[symmetric])
qed

lemma rate_finite_nonneg:
  assumes "0 \<le> x" "x \<le> pow2 200"
  shows "in_range 0 (pow2 846) (calculateEmissionRate (calculateSurfaceArea (Fin x)) (Fin x))"
proof -
  have "pow2 200 \<le> pow2 (3 * 67 + 1)" by simp
  then have "x \<le> pow2 (3 * 67 + 1)" using assms(2) by linarith
  then have a: "in_range 0 (pow2 (2 * 67 + 4)) (calculateSurfaceArea (Fin x))"
    using assms(1) by (intro area_upper) simp_all
  have "in_range 0 (pow2 (4 * 200 + (2 * 67 + 4) - 92))
      (calculateEmissionRate (calculateSurfaceArea (Fin x)) (Fin x))"
    by (rule rate_upper[OF a assms]) simp_all
  then show ?thesis by simp
qed

lemma in_range_finite: "in_range a b x \<Longrightarrow> is_finite x"
  by (cases x) simp_all

lemma rate_finite:
  assumes "\<bar>x\<bar> \<le> pow2 200"
  shows "is_finite (calculateEmissionRate (calculateSurfaceArea (Fin x)) (Fin x))"
proof (cases "0 \<le> x")
  case True
  then show ?thesis using assms by (intro in_range_finite[OF rate_finite_nonneg]) simp_all
next
  case False
  then have "is_finite (calculateEmissionRate (calculateSurfaceArea (Fin (- x))) (Fin (- x)))"
    using assms by (intro in_range_finite[OF rate_finite_nonneg]) simp_all
  then show ?thesis using calculateEmissionRate_balance_neg[of "Fin x"] by simp
qed

section \<open>A tick that takes no time\<close>

lemma emission_zero_elapsed:
  assumes "lastUpdateTime s = Fin l"
  shows "is_finite (calculateEmissionRate (calculateSurfaceArea (SourceAccount.balance s))
           (SourceAccount.balance s)) \<Longrightarrow> emissionAmount s (Fin l) = Fin 0"
    and "\<not> is_finite (calculateEmissionRate (calculateSurfaceArea (SourceAccount.balance s))
           (SourceAccount.balance s)) \<Longrightarrow> emissionAmount s (Fin l) = NaN"
  unfolding emissionAmount_def Let_def elapsed_zero[OF assms]
  by (cases "calculateEmissionRate (calculateSurfaceArea (SourceAccount.balance s))
           (SourceAccount.balance s)"; simp)+

lemma num_sub_nan [simp]: "num_sub x NaN = NaN"
  by (cases x) simp_all

lemma num_add_nan [simp]: "num_add x NaN = NaN"
  by (cases x) simp_all

section \<open>A supply of \<open>2^300\<close>\<close>

lemma rate_2_300:
  "calculateEmissionRate (calculateSurfaceArea (Fin (2 ^ 300))) (Fin (2 ^ 300)) = PInf"
proof -
  have e: "(2 :: real) ^ 300 = pow2 300" by (simp add: pow2_numeral)
  have "in_range (pow2 (3 * 99 + 3)) (pow2 (3 * 100 + 1)) (Fin (pow2 300))" by simp
  then have "in_range (pow2 (2 * 99 + 3)) (pow2 (2 * 100 + 4)) (calculateSurfaceArea (Fin (pow2 300)))"
    by (rule area_range) simp_all
  then have a: "in_range (pow2 201) (pow2 204) (calculateSurfaceArea (Fin (pow2 300)))"
    by simp
  have "in_range (pow2 176) (pow2 180)
      (num_mul STEFAN_BOLTZMAN_CONSTANT (calculateSurfaceArea (Fin (pow2 300))))"
    by (rule mul_pow2[OF sigma_range a]) simp_all
  then obtain p where p: "num_mul STEFAN_BOLTZMAN_CONSTANT (calculateSurfaceArea (Fin (pow2 300)))
      = Fin p" "0 < p"
    using in_range_pos by blast
  have "pow2 300 ^ 4 = pow2 1200" by (simp add: pow2_power)
  moreover have "pow2 1024 \<le> pow2 1200" by simp
  ultimately have t4: "Math_pow (Fin (pow2 300)) (Fin 4) = PInf"
    by (simp add: Math_pow_4 rd_overflow)
  obtain c where c: "rd (465 * 10 ^ 18) = Fin c" "0 < c"
    using in_range_pos[OF ratio_range] by blast
  show ?thesis unfolding e calculateEmissionRate_def p(1) t4 c(1) using p(2) c(2) by simp
qed

section \<open>The clock running backwards\<close>

lemma in_range_neg': "in_range a b x \<Longrightarrow> in_range (- b) (- a) (num_neg x)"
  by (cases x) auto

lemma emission_minus_one:
  assumes "SourceAccount.balance s = Fin 1"
  shows "in_range (- pow2 (- 88)) (- pow2 (- 93)) (calculateEmissionAmount s (Fin (- 1)))"
  unfolding calculateEmissionAmount_unfold assms
  using in_range_neg'[OF rate_1] by (simp add: num_mul_minus_one)

lemma emission_clock_back:
  assumes "SourceAccount.balance s = Fin 1" "lastUpdateTime s = Fin 1000"
  shows "in_range (- pow2 (- 88)) (- pow2 (- 93)) (emissionAmount s (Fin 0))"
  using emission_minus_one[OF assms(1)]
  unfolding calculateEmissionAmount_unfold emissionAmount_def Let_def
    elapsed_minus_one_second[OF assms(2)] .

lemma area_NInf: "calculateSurfaceArea NInf = PInf"
proof -
  obtain c where c: "num_mul (num_div (Fin 4) (Fin 3)) (rd (314159 / 100000)) = Fin c" "0 < c"
    using four_thirds_PI_Fin by blast
  obtain p where p: "num_mul (Fin 4) (rd (314159 / 100000)) = Fin p" "0 < p"
    using in_range_pos[OF four_PI_range] by blast
  show ?thesis
    unfolding calculateSurfaceArea_def Let_def c(1) p(1) using c(2) p(2)
    by (simp add: is_odd_integer_def)
qed

section \<open>The sampler\<close>

subsection \<open>Numbers that are not negative\<close>

lemma num_add_nonneg_num: "nonneg_num x \<Longrightarrow> nonneg_num y \<Longrightarrow> nonneg_num (num_add x y)"
  by (cases x; cases y) (simp_all add: rd_nonneg_num)

lemma num_div_nonneg_num: "nonneg_num x \<Longrightarrow> 0 < c \<Longrightarrow> nonneg_num (num_div x (Fin c))"
  by (cases x) (simp_all add: rd_nonneg_num)

text \<open>A number that is at least 1: the value of a power of a draw.\<close>

lemma rd_ge_one:
  assumes "1 \<le> y"
  shows "rd y = PInf \<or> (\<exists>p. rd y = Fin p \<and> 1 \<le> p \<and> is_double p)"
proof -
  have "rd_real 1 = 1" using pow2_float[of 0] by simp
  then have ge: "1 \<le> rd_real y" using assms by (rule anchor_lower)
  show ?thesis
  proof (cases y rule: rd_cases)
    case fin
    then have "is_double (rd_real y)" using rd_is_number[of y] by simp
    then show ?thesis using fin ge by simp
  next
    case pinf
    then show ?thesis by simp
  next
    case ninf
    have "0 < pow2 1024" by simp
    then show ?thesis using ninf(2) ge by linarith
  qed
qed

lemma sub_one_nonneg:
  assumes "x = PInf \<or> (\<exists>p. x = Fin p \<and> 1 \<le> p \<and> is_double p)"
  shows "nonneg_num (num_sub x (Fin 1))"
proof -
  have "nonneg_num (num_sub (Fin p) (Fin 1))" if p: "1 \<le> p" "is_double p" for p
  proof -
    have "rd_real (p - 1) \<le> p"
      using p(2) by (intro anchor_upper) (simp_all add: is_double_iff)
    moreover have "p < pow2 1024" using is_double_less[OF p(2)] by linarith
    ultimately have "\<not> pow2 1024 \<le> rd_real (p - 1)" by linarith
    moreover have "0 \<le> rd_real (p - 1)" using p(1) by (intro rd_real_nonneg) simp
    moreover have "0 < pow2 1024" by simp
    ultimately show ?thesis by (simp add: rd_def)
  qed
  then show ?thesis using assms by auto
qed

subsection \<open>The exponent\<close>

lemma exponent_negative:
  assumes "is_double k" "0 < k"
  shows "num_div (Fin (- 1)) (Fin k) = NInf
         \<or> (\<exists>e. num_div (Fin (- 1)) (Fin k) = Fin e \<and> e < 0)"
proof -
  have "k < pow2 1024" using is_double_less[OF assms(1)] by linarith
  then have "1 / pow2 1024 < 1 / k" using assms(2) by (intro divide_strict_left_mono) simp_all
  moreover have "1 / pow2 1024 = pow2 (- 1024)" by (simp add: pow2_minus inverse_eq_divide)
  moreover have "pow2 (- 1074) \<le> pow2 (- 1024)" by simp
  ultimately have "pow2 (- 1074) \<le> 1 / k" by linarith
  then have "- 1 / k \<le> - pow2 (- 1074)" by simp
  then have l: "num_less (rd (- 1 / k)) (Fin 0)" by (rule rd_neg_less)
  show ?thesis
  proof (cases "rd (- 1 / k)")
    case (Fin e)
    then show ?thesis using l assms(2) by simp
  next
    case PInf
    then show ?thesis using l by simp
  next
    case NInf
    then show ?thesis using assms(2) by simp
  next
    case NaN
    then show ?thesis using l by simp
  qed
qed

lemma power_of_draw:
  assumes "0 < u" "u < 1"
    and "E = NInf \<or> (\<exists>e. E = Fin e \<and> e < 0)"
  shows "Math_pow (Fin u) E = PInf
         \<or> (\<exists>p. Math_pow (Fin u) E = Fin p \<and> 1 \<le> p \<and> is_double p)"
proof -
  have "Math_pow (Fin u) (Fin e) = PInf
         \<or> (\<exists>p. Math_pow (Fin u) (Fin e) = Fin p \<and> 1 \<le> p \<and> is_double p)" if e: "e < 0" for e
  proof -
    have "u powr e \<ge> 1 powr e"
      using assms(1,2) e by (intro powr_mono2') simp_all
    then have "1 \<le> u powr e" by simp
    then show ?thesis using rd_ge_one[of "u powr e"] assms(1) e by simp
  qed
  moreover have "Math_pow (Fin u) NInf = PInf" using assms(1,2) by simp
  ultimately show ?thesis using assms(3) by (elim disjE exE conjE) (simp_all only:, blast)
qed

lemma sample_term_nonneg:
  assumes "is_double k" "0 < k" "0 < u" "u < 1"
  shows "nonneg_num (num_sub (Math_pow (Fin u) (num_div (Fin (- 1)) (Fin k))) (Fin 1))"
  by (rule sub_one_nonneg[OF power_of_draw[OF assms(3,4) exponent_negative[OF assms(1,2)]]])

subsection \<open>The samples\<close>

lemma random_open_stl: "random_open g \<Longrightarrow> random_open (stl g)"
  unfolding random_open_def using stl_sset by fastforce

lemma random_open_shd: "random_open g \<Longrightarrow> is_double (shd g) \<and> 0 < shd g \<and> shd g < 1"
  unfolding random_open_def using shd_sset by fastforce

lemma random_open_sdrop: "random_open g \<Longrightarrow> random_open (sdrop n g)"
  by (induction n arbitrary: g) (simp_all add: random_open_stl)

lemma kappaRandom_Suc:
  "fst (kappaRandom kappa (Suc n) g) =
     num_div (num_add (num_add
         (num_sub (Math_pow (Fin (shd g)) (num_div (Fin (- 1)) kappa)) (Fin 1))
         (num_sub (Math_pow (Fin (shd (stl g))) (num_div (Fin (- 1)) kappa)) (Fin 1)))
         (num_sub (Math_pow (Fin (shd (stl (stl g)))) (num_div (Fin (- 1)) kappa)) (Fin 1)))
       (Fin 3)
     # fst (kappaRandom kappa n (stl (stl (stl g))))"
  by (simp add: Let_def split_beta)

lemma samples_nonneg:
  assumes "is_double k" "0 < k"
  shows "random_open g \<Longrightarrow> \<forall>v \<in> set (fst (kappaRandom (Fin k) n g)). nonneg_num v"
proof (induction n arbitrary: g)
  case 0
  then show ?case by simp
next
  case (Suc n)
  have g1: "random_open (stl g)" by (rule random_open_stl[OF Suc.prems])
  have g2: "random_open (stl (stl g))" by (rule random_open_stl[OF g1])
  have g3: "random_open (stl (stl (stl g)))" by (rule random_open_stl[OF g2])
  have t: "nonneg_num (num_sub (Math_pow (Fin (shd h)) (num_div (Fin (- 1)) (Fin k))) (Fin 1))"
    if "random_open h" for h
    using random_open_shd[OF that] by (intro sample_term_nonneg[OF assms]) simp_all
  have "nonneg_num (num_div (num_add (num_add
         (num_sub (Math_pow (Fin (shd g)) (num_div (Fin (- 1)) (Fin k))) (Fin 1))
         (num_sub (Math_pow (Fin (shd (stl g))) (num_div (Fin (- 1)) (Fin k))) (Fin 1)))
         (num_sub (Math_pow (Fin (shd (stl (stl g)))) (num_div (Fin (- 1)) (Fin k))) (Fin 1)))
       (Fin 3))"
    by (intro num_div_nonneg_num num_add_nonneg_num t Suc.prems g1 g2) simp
  then show ?case using Suc.IH[OF g3] unfolding kappaRandom_Suc by simp
qed

lemma samples_are_numbers:
  "\<forall>v \<in> set (fst (kappaRandom kappa n g)). is_number v"
  by (induction n arbitrary: g) (simp_all add: Let_def split_beta)

subsection \<open>The sum of the samples\<close>

text \<open>The order on the numbers that are not negative, as \<open>\<not> y < x\<close>.\<close>

lemma num_add_ge_left:
  assumes "nonneg_num x" "nonneg_num y" "is_number x"
  shows "\<not> num_less (num_add x y) x"
proof (cases x; cases y)
  fix a b
  assume h: "x = Fin a" "y = Fin b"
  have a: "rd_real a = a" "0 \<le> b" using assms h by (simp_all add: is_double_iff)
  have ge: "a \<le> rd_real (a + b)" using a by (intro anchor_lower) simp_all
  have nn: "0 \<le> a" using assms h by simp
  show ?thesis unfolding h
  proof (cases "a + b" rule: rd_cases)
    case fin
    then show "\<not> num_less (num_add (Fin a) (Fin b)) (Fin a)" using ge by simp
  next
    case pinf
    then show "\<not> num_less (num_add (Fin a) (Fin b)) (Fin a)" by simp
  next
    case ninf
    have "0 < pow2 1024" by simp
    then have False using ninf(2) ge nn by linarith
    then show "\<not> num_less (num_add (Fin a) (Fin b)) (Fin a)" ..
  qed
qed (use assms in simp_all)

lemma num_add_ge_right:
  assumes "nonneg_num x" "nonneg_num y" "is_number y"
  shows "\<not> num_less (num_add x y) y"
proof (cases x; cases y)
  fix a b
  assume h: "x = Fin a" "y = Fin b"
  have a: "rd_real b = b" "0 \<le> a" using assms h by (simp_all add: is_double_iff)
  have ge: "b \<le> rd_real (a + b)" using a by (intro anchor_lower) simp_all
  have nn: "0 \<le> b" using assms h by simp
  show ?thesis unfolding h
  proof (cases "a + b" rule: rd_cases)
    case fin
    then show "\<not> num_less (num_add (Fin a) (Fin b)) (Fin b)" using ge by simp
  next
    case pinf
    then show "\<not> num_less (num_add (Fin a) (Fin b)) (Fin b)" by simp
  next
    case ninf
    have "0 < pow2 1024" by simp
    then have False using ninf(2) ge nn by linarith
    then show "\<not> num_less (num_add (Fin a) (Fin b)) (Fin b)" ..
  qed
qed (use assms in simp_all)

lemma nonneg_le_trans:
  assumes "nonneg_num x" "nonneg_num y" "nonneg_num z" "\<not> num_less y x" "\<not> num_less z y"
  shows "\<not> num_less z x"
  using assms by (cases x; cases y; cases z) simp_all

lemma foldl_nonneg:
  assumes "nonneg_num acc" "\<forall>v \<in> set vs. nonneg_num v"
  shows "nonneg_num (foldl num_add acc vs)"
  using assms by (induction vs arbitrary: acc) (simp_all add: num_add_nonneg_num)

lemma foldl_ge:
  assumes "nonneg_num acc" "is_number acc" "\<forall>v \<in> set vs. nonneg_num v \<and> is_number v"
  shows "\<not> num_less (foldl num_add acc vs) acc
         \<and> (\<forall>v \<in> set vs. \<not> num_less (foldl num_add acc vs) v)"
  using assms
proof (induction vs arbitrary: acc)
  case Nil
  then show ?case by (cases acc) simp_all
next
  case (Cons a vs)
  let ?acc = "num_add acc a"
  let ?T = "foldl num_add ?acc vs"
  have a: "nonneg_num a" "is_number a" using Cons.prems(3) by simp_all
  have n: "nonneg_num ?acc" by (rule num_add_nonneg_num[OF Cons.prems(1) a(1)])
  have vs: "\<forall>v \<in> set vs. nonneg_num v \<and> is_number v" using Cons.prems(3) by simp
  have IH: "\<not> num_less ?T ?acc" "\<forall>v \<in> set vs. \<not> num_less ?T v"
    using Cons.IH[OF n _ vs] by simp_all
  have T: "nonneg_num ?T" using vs by (intro foldl_nonneg[OF n]) simp
  have 1: "\<not> num_less ?T acc"
    by (rule nonneg_le_trans[OF Cons.prems(1) n T
          num_add_ge_left[OF Cons.prems(1) a(1) Cons.prems(2)] IH(1)])
  have 2: "\<not> num_less ?T a"
    by (rule nonneg_le_trans[OF a(1) n T num_add_ge_right[OF Cons.prems(1) a] IH(1)])
  show ?case using 1 2 IH(2) by simp
qed

section \<open>The sampler at \<open>kappa = 3.5\<close>\<close>

lemma is_double_dyadic:
  assumes "\<bar>m\<bar> < 2 ^ 53" "- 1074 \<le> e" "e \<le> 970"
  shows "is_double (of_int m * pow2 e)"
proof -
  have m: "\<bar>real_of_int m\<bar> < 2 ^ 53"
    using assms(1) by (metis of_int_abs of_int_less_numeral_power_cancel_iff)
  have "\<bar>real_of_int m\<bar> * pow2 e \<le> 2 ^ 53 * pow2 e"
    using m by (intro mult_right_mono) simp_all
  also have "\<dots> = pow2 (53 + e)" by (simp add: pow2_add)
  also have "\<dots> < pow2 1024" using assms(3) by simp
  finally have "\<bar>real_of_int m * pow2 e\<bar> < pow2 1024" by (simp add: abs_mult)
  then show ?thesis unfolding is_double_iff using float_intro[OF assms(1,2)] by simp
qed

lemma is_double_5_16: "is_double (5 / 16)"
proof -
  have e: "real_of_int 5 * pow2 (- 4) = 5 / 16" by (simp add: pow2_neg_numeral)
  show ?thesis using is_double_dyadic[of 5 "- 4"] unfolding e by simp
qed

lemma is_double_1_4: "is_double (1 / 4)"
proof -
  have e: "real_of_int 1 * pow2 (- 2) = 1 / 4" by (simp add: pow2_neg_numeral)
  show ?thesis using is_double_dyadic[of 1 "- 2"] unfolding e by simp
qed

lemma KAPPA_exponent:
  "\<exists>e. num_div (Fin (- 1)) KAPPA = Fin e \<and> - 5 / 16 \<le> e \<and> e \<le> - 1 / 4"
proof -
  have "in_range (- (5 / 16)) (- (1 / 4)) (rd (- 1 / (35 / 10)))"
    by (rule rd_range) (simp_all add: is_double_5_16 is_double_1_4)
  then obtain e where "rd (- 1 / (35 / 10)) = Fin e" "- (5 / 16) \<le> e" "e \<le> - (1 / 4)"
    using in_range_Fin by blast
  then show ?thesis by (simp add: KAPPA_def)
qed

lemma draw_ge: "is_double u \<Longrightarrow> 0 < u \<Longrightarrow> pow2 (- 1074) \<le> u"
  by (rule float_pos_ge) (simp_all add: is_double_iff)

lemma power_of_draw_range:
  assumes "is_double u" "0 < u" "u < 1" "- 1 / 2 \<le> e" "e < 0"
  shows "in_range 1 (pow2 537) (Math_pow (Fin u) (Fin e))"
proof -
  have "1 powr e \<le> u powr e" using assms(2,3,5) by (intro powr_mono2') simp_all
  then have lo: "1 \<le> u powr e" by simp
  have "u powr e \<le> u powr (- 1 / 2)" using assms(2,3,4) by (intro powr_mono') simp_all
  also have "\<dots> \<le> pow2 (- 1074) powr (- 1 / 2)"
    using draw_ge[OF assms(1,2)] by (intro powr_mono2') simp_all
  also have "\<dots> = pow2 537" by (simp add: pow2_def powr_powr)
  finally have hi: "u powr e \<le> pow2 537" .
  have "in_range 1 (pow2 537) (rd (u powr e))"
    by (rule rd_range[OF is_double_1 is_double_pow2 lo hi]) simp_all
  then show ?thesis using assms(2,5) by simp
qed

lemma sample_term_range:
  assumes "is_double u" "0 < u" "u < 1"
  shows "in_range 0 (pow2 537) (num_sub (Math_pow (Fin u) (num_div (Fin (- 1)) KAPPA)) (Fin 1))"
proof -
  obtain e where e: "num_div (Fin (- 1)) KAPPA = Fin e" "- 5 / 16 \<le> e" "e \<le> - 1 / 4"
    using KAPPA_exponent by blast
  have p: "in_range 1 (pow2 537) (Math_pow (Fin u) (Fin e))"
    using e(2,3) by (intro power_of_draw_range[OF assms]) simp_all
  have o: "in_range 1 1 (Fin 1)" by simp
  show ?thesis unfolding e(1)
    by (rule sub_range[OF p o is_double_0 is_double_pow2]) simp_all
qed

lemma sample_range:
  assumes "in_range 0 (pow2 537) x" "in_range 0 (pow2 537) y" "in_range 0 (pow2 537) z"
  shows "in_range 0 (pow2 539) (num_div (num_add (num_add x y) z) (Fin 3))"
proof -
  have d: "pow2 537 + pow2 537 = pow2 538" "pow2 538 + pow2 538 = pow2 539"
    using pow2_add[of 537 1] pow2_add[of 538 1] by (simp_all add: pow2_1)
  have l: "pow2 537 \<le> pow2 538" by simp
  have 1: "in_range 0 (pow2 538) (num_add x y)"
    by (rule add_range[OF assms(1,2) is_double_0 is_double_pow2]) (simp_all add: d)
  have "pow2 538 + pow2 537 \<le> pow2 539" using d l by linarith
  then have 2: "in_range 0 (pow2 539) (num_add (num_add x y) z)"
    by (intro add_range[OF 1 assms(3) is_double_0 is_double_pow2]) simp_all
  have 3: "in_range 3 3 (Fin 3)" by simp
  have "pow2 539 / 3 \<le> pow2 539" by simp
  then show ?thesis
    by (intro div_range[OF 2 3 _ _ is_double_0 is_double_pow2]) simp_all
qed

lemma samples_range:
  "random_open g \<Longrightarrow> \<forall>v \<in> set (fst (kappaRandom KAPPA n g)). in_range 0 (pow2 539) v"
proof (induction n arbitrary: g)
  case 0
  then show ?case by simp
next
  case (Suc n)
  have g1: "random_open (stl g)" by (rule random_open_stl[OF Suc.prems])
  have g2: "random_open (stl (stl g))" by (rule random_open_stl[OF g1])
  have g3: "random_open (stl (stl (stl g)))" by (rule random_open_stl[OF g2])
  have t: "in_range 0 (pow2 537) (num_sub (Math_pow (Fin (shd h)) (num_div (Fin (- 1)) KAPPA)) (Fin 1))"
    if "random_open h" for h
    using random_open_shd[OF that] by (intro sample_term_range) simp_all
  show ?case
    unfolding kappaRandom_Suc using Suc.IH[OF g3] sample_range[OF t[OF Suc.prems] t[OF g1] t[OF g2]]
    by simp
qed

subsection \<open>The total\<close>

lemma foldl_range:
  assumes "in_range 0 (of_nat j * pow2 539) acc" "\<forall>v \<in> set vs. in_range 0 (pow2 539) v"
    "j + length vs \<le> 128"
  shows "in_range 0 (of_nat (j + length vs) * pow2 539) (foldl num_add acc vs)"
  using assms
proof (induction vs arbitrary: acc j)
  case Nil
  then show ?case by simp
next
  case (Cons a vs)
  have a: "in_range 0 (pow2 539) a" using Cons.prems(2) by simp
  have j: "int (Suc j) < 2 ^ 53" using Cons.prems(3) by simp
  have d: "is_double (real_of_int (int (Suc j)) * pow2 539)"
    using j by (intro is_double_dyadic) simp_all
  have "in_range 0 (of_nat (Suc j) * pow2 539) (num_add acc a)"
    using d by (intro add_range[OF Cons.prems(1) a is_double_0]) (simp_all add: algebra_simps)
  then have "in_range 0 (of_nat (Suc j + length vs) * pow2 539) (foldl num_add (num_add acc a) vs)"
    using Cons.prems by (intro Cons.IH) simp_all
  then show ?case by simp
qed

lemma total_range:
  assumes "random_open g"
  shows "in_range 0 (pow2 546) (totalDistribution g)"
proof -
  have s: "\<forall>v \<in> set (levelDistribution g). in_range 0 (pow2 539) v"
    using samples_range[OF assms, of 100] unfolding levelDistribution_def .
  have a0: "in_range 0 (of_nat 0 * pow2 539) (Fin 0)" by simp
  have len: "0 + length (levelDistribution g) \<le> 128" by simp
  have "in_range 0 (of_nat (0 + length (levelDistribution g)) * pow2 539)
      (foldl num_add (Fin 0) (levelDistribution g))"
    by (rule foldl_range[OF a0 s len])
  then have t: "in_range 0 (100 * pow2 539) (totalDistribution g)"
    by (simp add: totalDistribution_def)
  have "(100 :: real) \<le> 2 ^ 7" by simp
  then have "(100 :: real) \<le> pow2 7" by (simp only: pow2_numeral)
  then have "100 * pow2 539 \<le> pow2 7 * pow2 539"
    by (intro mult_right_mono) simp_all
  also have "\<dots> = pow2 546" by (simp add: pow2_add[symmetric])
  finally have "100 * pow2 539 \<le> pow2 546" .
  then show ?thesis by (intro in_range_weaken[OF t]) simp_all
qed

lemma in_range_nonneg_num: "in_range 0 b x \<Longrightarrow> nonneg_num x"
  by (cases x) simp_all

lemma samples_le_total:
  assumes "random_open g"
  shows "\<forall>v \<in> set (levelDistribution g). \<not> num_less (totalDistribution g) v"
proof -
  have "\<forall>v \<in> set (levelDistribution g). nonneg_num v \<and> is_number v"
    using samples_range[OF assms, of 100] samples_are_numbers[of KAPPA 100 g]
    by (auto simp: levelDistribution_def intro: in_range_nonneg_num)
  then show ?thesis
    unfolding totalDistribution_def using foldl_ge[of "Fin 0" "levelDistribution g"] by simp
qed

subsection \<open>The weights\<close>

lemma weight_range:
  assumes "in_range 0 b v" "\<not> num_less (Fin t) v" "0 < t"
  shows "in_range 0 1 (num_div v (Fin t))"
proof -
  obtain x where x: "v = Fin x" "0 \<le> x" using in_range_Fin[OF assms(1)] by blast
  have "x \<le> t" using assms(2) x(1) by simp
  then have "x / t \<le> 1" using assms(3) by simp
  moreover have "0 \<le> x / t" using x(2) assms(3) by simp
  ultimately have "in_range 0 1 (rd (x / t))" by (intro rd_range) simp_all
  then show ?thesis using assms(3) x(1) by simp
qed

lemma weights_range:
  assumes "random_open g" "num_less (Fin 0) (totalDistribution g)"
  shows "\<forall>w \<in> set (normalizedDistribution g). in_range 0 1 w"
proof -
  obtain t where t: "totalDistribution g = Fin t" using in_range_Fin[OF total_range[OF assms(1)]]
    by blast
  have tp: "0 < t" using assms(2) t by simp
  have "in_range 0 1 (num_div v (Fin t))" if v: "v \<in> set (levelDistribution g)" for v
  proof -
    have 1: "in_range 0 (pow2 539) v"
      using samples_range[OF assms(1), of 100] v by (simp add: levelDistribution_def)
    have 2: "\<not> num_less (Fin t) v" using samples_le_total[OF assms(1)] v t by simp
    show ?thesis by (rule weight_range[OF 1 2 tp])
  qed
  then show ?thesis by (simp add: normalizedDistribution_def t)
qed

lemma weights_zero_total:
  assumes "random_open g" "totalDistribution g = Fin 0"
  shows "normalizedDistribution g = replicate 100 NaN"
proof -
  have "v = Fin 0" if v: "v \<in> set (levelDistribution g)" for v
  proof -
    obtain x where x: "v = Fin x" "0 \<le> x"
      using samples_range[OF assms(1), of 100] v in_range_Fin
      by (fastforce simp: levelDistribution_def)
    have "\<not> num_less (Fin 0) v" using samples_le_total[OF assms(1)] v assms(2) by simp
    then show ?thesis using x by simp
  qed
  then have "num_div v (Fin 0) = NaN" if "v \<in> set (levelDistribution g)" for v
    using that by fastforce
  then have "map (\<lambda>val. num_div val (Fin 0)) (levelDistribution g)
      = map (\<lambda>val. NaN) (levelDistribution g)"
    by (intro map_cong[OF refl])
  then show ?thesis
    by (simp add: normalizedDistribution_def assms(2) map_replicate_const)
qed

section \<open>Particular generators\<close>

lemma random_open_sconst: "random_open (sconst x) \<longleftrightarrow> is_double x \<and> 0 < x \<and> x < 1"
  by (simp add: random_open_def)

lemma is_double_half: "is_double (1 / 2)"
proof -
  have e: "real_of_int 1 * pow2 (- 1) = 1 / 2" using pow2_minus[of 1] by (simp add: pow2_1)
  show ?thesis using is_double_dyadic[of 1 "- 1"] unfolding e by simp
qed

lemma random_open_half: "random_open (sconst (1 / 2))"
  by (simp add: random_open_sconst is_double_half)

subsection \<open>Draws next to 1\<close>

lemma is_double_below_one: "is_double (1 - 1 / 2 ^ 52)"
proof -
  have e: "real_of_int (2 ^ 52 - 1) * pow2 (- 52) = 1 - 1 / 2 ^ 52"
    by (simp add: pow2_neg_numeral field_simps)
  show ?thesis using is_double_dyadic[of "2 ^ 52 - 1" "- 52"] unfolding e by simp
qed

lemma random_open_below_one: "random_open (sconst (1 - 1 / 2 ^ 52))"
  using is_double_below_one by (simp add: random_open_sconst)

lemma power_below_one:
  assumes "- 5 / 16 \<le> e" "e < 0"
  shows "Math_pow (Fin (1 - 1 / 2 ^ 52)) (Fin e) = Fin 1"
proof -
  let ?u = "1 - 1 / 2 ^ 52 :: real"
  let ?t = "?u powr (- 5 / 16)"
  have u: "0 < ?u" "?u < 1" by simp_all
  have "1 powr e \<le> ?u powr e" using u assms(2) by (intro powr_mono2') simp_all
  then have lo: "1 \<le> ?u powr e" by simp
  have le: "?u powr e \<le> ?t" using u assms(1) by (intro powr_mono') simp_all
  have tpos: "0 \<le> ?t" by simp
  have "?t ^ 16 = ?t powr 16" by (simp only: powr_numeral[OF tpos])
  also have "\<dots> = ?u powr (- 5 / 16 * 16)" by (simp only: powr_powr)
  also have "\<dots> = ?u powr (- 5)" by simp
  also have "\<dots> = 1 / ?u ^ 5" using u(1) by (simp add: powr_minus_divide powr_numeral)
  finally have t16: "?t ^ 16 = 1 / ?u ^ 5" .
  have num: "1 / ?u ^ 5 < (1 + 1 / 2 ^ 53) ^ 16" by (simp add: field_simps)
  have "?t < 1 + 1 / 2 ^ 53"
  proof (rule ccontr)
    assume "\<not> ?t < 1 + 1 / 2 ^ 53"
    then have "1 + 1 / 2 ^ 53 \<le> ?t" by simp
    then have "(1 + 1 / 2 ^ 53) ^ 16 \<le> ?t ^ 16" by (intro power_mono) simp_all
    then show False using t16 num by linarith
  qed
  moreover have "pow2 (- 53) = 1 / 2 ^ 53" by (simp add: pow2_neg_numeral)
  ultimately have "?u powr e < 1 + pow2 (- 53)" using le by linarith
  then have "rd (?u powr e) = Fin 1" using lo by (intro rd_one_plus)
  then show ?thesis using u(1) assms(2) by simp
qed

lemma sample_below_one:
  "num_div (num_add (num_add
      (num_sub (Math_pow (Fin (1 - 1 / 2 ^ 52)) (num_div (Fin (- 1)) KAPPA)) (Fin 1))
      (num_sub (Math_pow (Fin (1 - 1 / 2 ^ 52)) (num_div (Fin (- 1)) KAPPA)) (Fin 1)))
      (num_sub (Math_pow (Fin (1 - 1 / 2 ^ 52)) (num_div (Fin (- 1)) KAPPA)) (Fin 1)))
    (Fin 3) = Fin 0"
proof -
  obtain e where e: "num_div (Fin (- 1)) KAPPA = Fin e" "- 5 / 16 \<le> e" "e \<le> - 1 / 4"
    using KAPPA_exponent by blast
  have "Math_pow (Fin (1 - 1 / 2 ^ 52)) (Fin e) = Fin 1"
    using e(2,3) by (intro power_below_one) simp_all
  then show ?thesis unfolding e(1) by simp
qed

lemma samples_below_one:
  "fst (kappaRandom KAPPA n (sconst (1 - 1 / 2 ^ 52))) = replicate n (Fin 0)"
proof (induction n)
  case 0
  then show ?case by simp
next
  case (Suc n)
  show ?case unfolding kappaRandom_Suc by (simp only: siterate.sel id_apply sample_below_one Suc replicate_Suc)
qed

lemma foldl_zeros: "foldl num_add (Fin 0) (replicate n (Fin 0)) = Fin 0"
  by (induction n) simp_all

lemma total_below_one: "totalDistribution (sconst (1 - 1 / 2 ^ 52)) = Fin 0"
  by (simp only: totalDistribution_def levelDistribution_def samples_below_one foldl_zeros)

lemma weights_below_one: "normalizedDistribution (sconst (1 - 1 / 2 ^ 52)) = replicate 100 NaN"
  by (rule weights_zero_total[OF random_open_below_one total_below_one])

subsection \<open>Levels that become \<^verbatim>\<open>NaN\<close>\<close>

lemma add_to_levels_nan:
  "length ls = n \<Longrightarrow> add_to_levels ls (replicate n NaN) e = replicate n NaN"
proof (induction n arbitrary: ls)
  case 0
  then show ?case by simp
next
  case (Suc n)
  then obtain l ls' where "ls = l # ls'" "length ls' = n" by (cases ls) auto
  then show ?case using Suc.IH[of ls'] by simp
qed

lemma foldl_nan: "foldl num_add NaN vs = NaN"
  by (induction vs) simp_all

lemma foldl_replicate_nan: "0 < n \<Longrightarrow> foldl num_add (Fin 0) (replicate n NaN) = NaN"
  by (cases n) (simp_all add: foldl_nan)

subsection \<open>A first draw of zero\<close>

lemma stl_zero_half: "stl (stl (stl (0 ## sconst (1 / 2)))) = sconst (1 / 2)"
  by simp

lemma foldl_pinf: "\<forall>v \<in> set vs. nonneg_num v \<Longrightarrow> foldl num_add PInf vs = PInf"
proof (induction vs)
  case Nil
  then show ?case by simp
next
  case (Cons a vs)
  then have "num_add PInf a = PInf" by (cases a) simp_all
  then show ?case using Cons by simp
qed

lemma sample_zero_draw:
  "fst (kappaRandom KAPPA (Suc n) (0 ## sconst (1 / 2)))
     = PInf # fst (kappaRandom KAPPA n (sconst (1 / 2)))"
proof -
  obtain e where e: "num_div (Fin (- 1)) KAPPA = Fin e" "- 5 / 16 \<le> e" "e \<le> - 1 / 4"
    using KAPPA_exponent by blast
  have e0: "e < 0" "e \<noteq> 0" using e(3) by simp_all
  have x: "num_sub (Math_pow (Fin 0) (Fin e)) (Fin 1) = PInf" using e0 by simp
  obtain y where y: "num_sub (Math_pow (Fin (1 / 2)) (Fin e)) (Fin 1) = Fin y"
    using in_range_Fin[OF sample_term_range[OF is_double_half, unfolded e(1)]] by auto
  have sel: "shd (0 ## sconst (1 / 2)) = 0" "shd (stl (0 ## sconst (1 / 2))) = 1 / 2"
    "shd (stl (stl (0 ## sconst (1 / 2)))) = 1 / 2"
    "stl (stl (stl (0 ## sconst (1 / 2)))) = sconst (1 / 2)"
    by simp_all
  show ?thesis
    unfolding kappaRandom_Suc e(1) sel x y by simp
qed

lemma levels_zero_draw:
  "levelDistribution (0 ## sconst (1 / 2)) = PInf # fst (kappaRandom KAPPA 99 (sconst (1 / 2)))"
proof -
  have "(100 :: nat) = Suc 99" by simp
  then show ?thesis unfolding levelDistribution_def by (simp only: sample_zero_draw)
qed

lemma total_zero_draw: "totalDistribution (0 ## sconst (1 / 2)) = PInf"
proof -
  have "\<forall>v \<in> set (fst (kappaRandom KAPPA 99 (sconst (1 / 2)))). nonneg_num v"
    using samples_range[OF random_open_half, of 99] in_range_nonneg_num by blast
  then show ?thesis
    unfolding totalDistribution_def levels_zero_draw by (simp add: foldl_pinf)
qed

lemma weight_zero_draw: "normalizedDistribution (0 ## sconst (1 / 2)) ! 0 = NaN"
  unfolding normalizedDistribution_def total_zero_draw levels_zero_draw by simp

section \<open>What a tick adds to a level\<close>

lemma is_double_abs: "is_double m \<Longrightarrow> is_double \<bar>m\<bar>"
  by (cases "0 \<le> m") (simp_all add: abs_if)

lemma increment_range:
  assumes "in_range 0 1 w" "is_double m"
  shows "in_range (- \<bar>m\<bar>) \<bar>m\<bar> (num_mul w (Fin m))"
proof -
  obtain x where x: "w = Fin x" "0 \<le> x" "x \<le> 1" using in_range_Fin[OF assms(1)] by blast
  have "\<bar>x * m\<bar> \<le> 1 * \<bar>m\<bar>" unfolding abs_mult using x(2,3) by (intro mult_right_mono) simp_all
  then have "- \<bar>m\<bar> \<le> x * m" "x * m \<le> \<bar>m\<bar>" by linarith+
  then show ?thesis
    unfolding x(1) num_mul.simps using is_double_abs[OF assms(2)] by (intro rd_range) simp_all
qed

lemma increment_nonneg_range:
  assumes "in_range 0 1 w" "is_double m" "0 \<le> m"
  shows "in_range 0 m (num_mul w (Fin m))"
proof -
  obtain x where x: "w = Fin x" "0 \<le> x" "x \<le> 1" using in_range_Fin[OF assms(1)] by blast
  have "x * m \<le> 1 * m" using x(3) assms(3) by (intro mult_right_mono) simp_all
  moreover have "0 \<le> x * m" using x(2) assms(3) by simp
  ultimately show ?thesis
    unfolding x(1) num_mul.simps using assms(2) by (intro rd_range) simp_all
qed

lemma rd_not_nan [simp]: "rd x \<noteq> NaN"
  by (cases x rule: rd_cases) simp_all

lemma num_add_not_nan:
  assumes "l \<noteq> NaN" "is_finite x"
  shows "num_add l x \<noteq> NaN"
  using assms by (cases l; cases x) simp_all

lemma level_finite:
  assumes "in_range (- pow2 1022) (pow2 1022) l" "in_range (- pow2 1022) (pow2 1022) x"
  shows "in_range (- pow2 1023) (pow2 1023) (num_add l x)"
proof -
  have d: "pow2 1022 + pow2 1022 = pow2 1023" using pow2_add[of 1022 1] by (simp add: pow2_1)
  have b: "- pow2 1023 \<le> - pow2 1022 + - pow2 1022" "pow2 1022 + pow2 1022 \<le> pow2 1023"
    using d by linarith+
  have i: "is_double (- pow2 1023)" "is_double (pow2 1023)" by (simp_all add: is_double_pow2)
  show ?thesis by (rule add_range[OF assms i b])
qed

lemma update_level:
  assumes "length (levels env) = 100" "i < 100"
  shows "levels (fst (snd (updateSourceAndEnvironment s env t g))) ! i
    = num_add (levels env ! i) (num_mul (normalizedDistribution g ! i) (emissionAmount s t))"
  unfolding update_fields using assms by (intro add_to_levels_nth) simp_all

lemma update_levels_length:
  assumes "length (levels env) = 100"
  shows "length (levels (fst (snd (updateSourceAndEnvironment s env t g)))) = 100"
  unfolding update_fields using assms by (simp add: add_to_levels_length)

lemma normalized_nth:
  "i < 100 \<Longrightarrow> normalizedDistribution g ! i
     = num_div (levelDistribution g ! i) (totalDistribution g)"
  by (simp add: normalizedDistribution_def)

lemma advance_all_length:
  "length (levels env) = 100 \<Longrightarrow> length (levels (fst (snd (advance_all s env ts g)))) = 100"
proof (induction ts arbitrary: s env g)
  case Nil
  then show ?case by simp
next
  case (Cons c ts)
  obtain s' e' g' where r: "updateSourceAndEnvironment s env c g = (s', e', g')"
    by (cases "updateSourceAndEnvironment s env c g") auto
  then have "length (levels e') = 100"
    using update_levels_length[OF Cons.prems, of s c g] by simp
  then show ?case using Cons.IH[of e' s' g'] by (simp add: r)
qed

lemma update_levels_nan:
  assumes "normalizedDistribution g = replicate 100 NaN" "length (levels env) = 100"
  shows "levels (fst (snd (updateSourceAndEnvironment s env t g))) = replicate 100 NaN"
  unfolding update_fields assms(1) by (rule add_to_levels_nan[OF assms(2)])

lemma levels_stay_good:
  assumes "random_open g" "num_less (Fin 0) (totalDistribution g)"
    "is_finite (emissionAmount s t)" "length (levels env) = 100" "i < 100"
  shows "levels env ! i \<noteq> NaN
      \<Longrightarrow> levels (fst (snd (updateSourceAndEnvironment s env t g))) ! i \<noteq> NaN"
    and "in_range (- pow2 1022) (pow2 1022) (levels env ! i)
      \<Longrightarrow> in_range (- pow2 1022) (pow2 1022) (emissionAmount s t)
      \<Longrightarrow> in_range (- pow2 1023) (pow2 1023)
            (levels (fst (snd (updateSourceAndEnvironment s env t g))) ! i)"
proof -
  obtain m where m: "emissionAmount s t = Fin m" using assms(3) by (cases "emissionAmount s t") auto
  have dm: "is_double m" using emissionAmount_is_number[of s t] m by simp
  have "normalizedDistribution g ! i \<in> set (normalizedDistribution g)"
    using assms(5) by (intro nth_mem) simp
  then have w: "in_range 0 1 (normalizedDistribution g ! i)"
    using weights_range[OF assms(1,2)] by blast
  have inc: "in_range (- \<bar>m\<bar>) \<bar>m\<bar> (num_mul (normalizedDistribution g ! i) (emissionAmount s t))"
    unfolding m by (rule increment_range[OF w dm])
  show "levels (fst (snd (updateSourceAndEnvironment s env t g))) ! i \<noteq> NaN"
    if "levels env ! i \<noteq> NaN"
    unfolding update_level[OF assms(4,5)]
    by (rule num_add_not_nan[OF that in_range_finite[OF inc]])
  show "in_range (- pow2 1023) (pow2 1023)
            (levels (fst (snd (updateSourceAndEnvironment s env t g))) ! i)"
    if l: "in_range (- pow2 1022) (pow2 1022) (levels env ! i)"
      and e: "in_range (- pow2 1022) (pow2 1022) (emissionAmount s t)"
  proof -
    have "- pow2 1022 \<le> m \<and> m \<le> pow2 1022" using e unfolding m by simp
    then have "\<bar>m\<bar> \<le> pow2 1022" by linarith
    then have "in_range (- pow2 1022) (pow2 1022)
        (num_mul (normalizedDistribution g ! i) (emissionAmount s t))"
      by (intro in_range_weaken[OF inc]) simp_all
    then show ?thesis unfolding update_level[OF assms(4,5)] by (rule level_finite[OF l])
  qed
qed

section \<open>Draws of one half\<close>

lemma is_double_9_8: "is_double (9 / 8)"
proof -
  have e: "real_of_int 9 * pow2 (- 3) = 9 / 8" by (simp add: pow2_neg_numeral)
  show ?thesis using is_double_dyadic[of 9 "- 3"] unfolding e by simp
qed

lemma power_half_ge:
  assumes "e \<le> - 1 / 4"
  shows "9 / 8 \<le> (1 / 2 :: real) powr e"
proof -
  let ?t = "(1 / 2 :: real) powr (- 1 / 4)"
  have tpos: "0 \<le> ?t" by simp
  have "?t ^ 4 = ?t powr 4" by (simp only: powr_numeral[OF tpos])
  also have "\<dots> = (1 / 2) powr (- 1 / 4 * 4)" by (simp only: powr_powr)
  also have "\<dots> = (1 / 2) powr (- 1)" by simp
  also have "\<dots> = 2" by (simp add: powr_minus_divide)
  finally have t4: "?t ^ 4 = 2" .
  have "9 / 8 \<le> ?t"
  proof (rule ccontr)
    assume "\<not> 9 / 8 \<le> ?t"
    then have "?t < 9 / 8" by simp
    then have "?t ^ 4 < (9 / 8) ^ 4" by (intro power_strict_mono) simp_all
    then show False using t4 by (simp add: power_divide)
  qed
  moreover have "?t \<le> (1 / 2) powr e" using assms by (intro powr_mono') simp_all
  ultimately show ?thesis by linarith
qed

lemma sample_half:
  "in_range (pow2 (- 5)) (pow2 539) (fst (kappaRandom KAPPA (Suc n) (sconst (1 / 2))) ! 0)"
proof -
  obtain e where e: "num_div (Fin (- 1)) KAPPA = Fin e" "- 5 / 16 \<le> e" "e \<le> - 1 / 4"
    using KAPPA_exponent by blast
  have e0: "e < 0" "- 1 / 2 \<le> e" using e(2,3) by simp_all
  have e8: "pow2 (- 3) = 1 / 8" by (simp add: pow2_neg_numeral)
  have e32: "pow2 (- 5) = 1 / 32" by (simp add: pow2_neg_numeral)
  have "(1 / 2 :: real) powr e \<le> (1 / 2) powr (- 1)"
    using e0(2) by (intro powr_mono') simp_all
  also have "\<dots> = pow2 1" by (simp add: powr_minus_divide pow2_1)
  also have "\<dots> \<le> pow2 537" by simp
  finally have hi: "(1 / 2) powr e \<le> pow2 537" .
  have "in_range (9 / 8) (pow2 537) (rd ((1 / 2) powr e))"
    by (rule rd_range[OF is_double_9_8 is_double_pow2 power_half_ge[OF e(3)] hi]) simp_all
  then have p: "in_range (9 / 8) (pow2 537) (Math_pow (Fin (1 / 2)) (Fin e))"
    using e0(1) by simp
  have o: "in_range 1 1 (Fin 1)" by simp
  have x: "in_range (pow2 (- 3)) (pow2 537) (num_sub (Math_pow (Fin (1 / 2)) (Fin e)) (Fin 1))"
    by (rule sub_range[OF p o is_double_pow2 is_double_pow2]) (simp_all add: e8)
  have d: "pow2 537 + pow2 537 = pow2 538" "pow2 538 + pow2 538 = pow2 539"
    using pow2_add[of 537 1] pow2_add[of 538 1] by (simp_all add: pow2_1)
  have l: "pow2 537 \<le> pow2 538" by simp
  have 1: "in_range (pow2 (- 3)) (pow2 538)
      (num_add (num_sub (Math_pow (Fin (1 / 2)) (Fin e)) (Fin 1))
               (num_sub (Math_pow (Fin (1 / 2)) (Fin e)) (Fin 1)))"
    by (rule add_range[OF x x is_double_pow2 is_double_pow2]) (simp_all add: d)
  have "pow2 538 + pow2 537 \<le> pow2 539" using d l by linarith
  then have 2: "in_range (pow2 (- 3)) (pow2 539)
      (num_add (num_add (num_sub (Math_pow (Fin (1 / 2)) (Fin e)) (Fin 1))
               (num_sub (Math_pow (Fin (1 / 2)) (Fin e)) (Fin 1)))
         (num_sub (Math_pow (Fin (1 / 2)) (Fin e)) (Fin 1)))"
    by (intro add_range[OF 1 x is_double_pow2 is_double_pow2]) simp_all
  have 3: "in_range 3 3 (Fin 3)" by simp
  have "pow2 539 / 3 \<le> pow2 539" by simp
  moreover have "pow2 (- 5) \<le> pow2 (- 3) / 3" by (simp add: e8 e32)
  ultimately have "in_range (pow2 (- 5)) (pow2 539)
      (num_div (num_add (num_add (num_sub (Math_pow (Fin (1 / 2)) (Fin e)) (Fin 1))
               (num_sub (Math_pow (Fin (1 / 2)) (Fin e)) (Fin 1)))
         (num_sub (Math_pow (Fin (1 / 2)) (Fin e)) (Fin 1))) (Fin 3))"
    by (intro div_range[OF 2 3 _ _ is_double_pow2 is_double_pow2]) simp_all
  then show ?thesis unfolding kappaRandom_Suc e(1) by simp
qed

lemma total_half_pos: "num_less (Fin 0) (totalDistribution (sconst (1 / 2)))"
proof -
  let ?g = "sconst (1 / 2 :: real)"
  have "(100 :: nat) = Suc 99" by simp
  then have v: "in_range (pow2 (- 5)) (pow2 539) (levelDistribution ?g ! 0)"
    unfolding levelDistribution_def using sample_half[of 99] by simp
  have "levelDistribution ?g ! 0 \<in> set (levelDistribution ?g)" by (intro nth_mem) simp
  then have le: "\<not> num_less (totalDistribution ?g) (levelDistribution ?g ! 0)"
    using samples_le_total[OF random_open_half] by blast
  obtain x where x: "levelDistribution ?g ! 0 = Fin x" "0 < x" using in_range_pos[OF v] by blast
  obtain t where t: "totalDistribution ?g = Fin t"
    using in_range_Fin[OF total_range[OF random_open_half]] by blast
  show ?thesis using le x unfolding t by simp
qed

section \<open>A supply of 1000\<close>

lemma rate_1000:
  "in_range (pow2 (- 51)) (pow2 (- 42))
     (calculateEmissionRate (calculateSurfaceArea (Fin 1000)) (Fin 1000))"
proof -
  have 1: "in_range (pow2 (3 * 2 + 3)) (pow2 (3 * 3 + 1)) (Fin 1000)"
    by (simp add: pow2_numeral)
  have 2: "in_range (pow2 9) (pow2 10) (Fin 1000)"
    by (simp add: pow2_numeral)
  show ?thesis using rate_of_balance_range[OF 1 2] by simp
qed

lemma emission_1000:
  assumes "SourceAccount.balance s = Fin 1000" "lastUpdateTime s = Fin 0"
  shows "in_range (pow2 (- 51)) (pow2 (- 42)) (emissionAmount s (Fin 1000))"
  unfolding emissionAmount_one_second[OF assms(2)] assms(1) by (rule rate_1000)

section \<open>Conservation\<close>

text \<open>
  C1, as stated, fails in double arithmetic: the two balances are rounded separately.
  With the supply 1 of the driver of version 1.0.1 (and the same supply in version
  1.0.2) a tick of 1000 ms leaves the source balance at exactly 1, nothing being
  subtracted, while the environment balance grows from 0 to a positive amount.
\<close>

theorem conservation_counterexample:
  "SourceAccount.balance (fst (updateSourceAndEnvironment_v1
      (initializeSourceAccount_v1 (Fin 1) (Fin 0)) initializeEnvironment_v1 (Fin 1000))) = Fin 1
   \<and> num_less (Fin 0) (Environment_v1.balance (snd (updateSourceAndEnvironment_v1
      (initializeSourceAccount_v1 (Fin 1) (Fin 0)) initializeEnvironment_v1 (Fin 1000))))
   \<and> SourceAccount.balance (fst (updateSourceAndEnvironment
      (initializeSourceAccount (Fin 1) (Fin 0)) initializeEnvironment (Fin 1000)
      (sconst (1 / 2)))) = Fin 1
   \<and> num_less (Fin 0) (Environment.balance (fst (snd (updateSourceAndEnvironment
      (initializeSourceAccount (Fin 1) (Fin 0)) initializeEnvironment (Fin 1000)
      (sconst (1 / 2))))))"
proof -
  let ?s1 = "initializeSourceAccount_v1 (Fin 1) (Fin 0)"
  let ?s = "initializeSourceAccount (Fin 1) (Fin 0)"
  have a: "SourceAccount.balance ?s1 = Fin 1" "lastUpdateTime ?s1 = Fin 0"
    "SourceAccount.balance ?s = Fin 1" "lastUpdateTime ?s = Fin 0"
    by (simp_all add: init_fields)
  show ?thesis
    unfolding update_fields update_v1_fields init_env_fields
    using source_1_unchanged(1)[OF a(1,2)] source_1_unchanged(1)[OF a(3,4)]
      in_range_pos_less[OF source_1_unchanged(2)[OF a(1,2)]]
      in_range_pos_less[OF source_1_unchanged(2)[OF a(3,4)]]
    by (simp add: num_add_zero_left)
qed

text \<open>
  C1, amended. Every call, in both versions, subtracts from the source balance and adds
  to the environment balance the same \<^verbatim>\<open>emissionAmount\<close>, and each of the two results is
  rounded to a double on its own: there is no clamp. So the sum of the balances is
  kept only up to the two roundings: when the balances and the amount are finite
  before and after the call, each stored balance is within a relative \<open>2^-53\<close> of the
  exact difference, or sum, and the sum of the two balances moves by at most
  \<open>(|b - m| + |c + m|) / 2^53\<close>.
\<close>

theorem conservation_rounded:
  "SourceAccount.balance (fst (updateSourceAndEnvironment s e t g))
     = num_sub (SourceAccount.balance s) (emissionAmount s t)
   \<and> Environment.balance (fst (snd (updateSourceAndEnvironment s e t g)))
     = num_add (Environment.balance e) (emissionAmount s t)
   \<and> SourceAccount.balance (fst (updateSourceAndEnvironment_v1 s e1 t))
     = num_sub (SourceAccount.balance s) (emissionAmount s t)
   \<and> Environment_v1.balance (snd (updateSourceAndEnvironment_v1 s e1 t))
     = num_add (Environment_v1.balance e1) (emissionAmount s t)
   \<and> (\<forall>b c m b' c'.
        is_double b \<and> is_double c \<and> SourceAccount.balance s = Fin b
        \<and> Environment.balance e = Fin c \<and> emissionAmount s t = Fin m
        \<and> SourceAccount.balance (fst (updateSourceAndEnvironment s e t g)) = Fin b'
        \<and> Environment.balance (fst (snd (updateSourceAndEnvironment s e t g))) = Fin c'
        \<longrightarrow> \<bar>b' - (b - m)\<bar> \<le> \<bar>b - m\<bar> / 2 ^ 53
          \<and> \<bar>c' - (c + m)\<bar> \<le> \<bar>c + m\<bar> / 2 ^ 53
          \<and> \<bar>(b' + c') - (b + c)\<bar> \<le> (\<bar>b - m\<bar> + \<bar>c + m\<bar>) / 2 ^ 53)"
proof -
  have "\<bar>b' - (b - m)\<bar> \<le> \<bar>b - m\<bar> / 2 ^ 53
          \<and> \<bar>c' - (c + m)\<bar> \<le> \<bar>c + m\<bar> / 2 ^ 53
          \<and> \<bar>(b' + c') - (b + c)\<bar> \<le> (\<bar>b - m\<bar> + \<bar>c + m\<bar>) / 2 ^ 53"
    if h: "is_double b" "is_double c" "SourceAccount.balance s = Fin b"
      "Environment.balance e = Fin c" "emissionAmount s t = Fin m"
      "SourceAccount.balance (fst (updateSourceAndEnvironment s e t g)) = Fin b'"
      "Environment.balance (fst (snd (updateSourceAndEnvironment s e t g))) = Fin c'"
    for b c m b' c'
  proof -
    have m: "is_double m" using emissionAmount_is_number[of s t] h(5) by simp
    have 1: "\<bar>b' - (b - m)\<bar> \<le> \<bar>b - m\<bar> / 2 ^ 53"
      using h(6) unfolding update_fields h(3,5) by (rule num_sub_rel_err[OF h(1) m])
    have 2: "\<bar>c' - (c + m)\<bar> \<le> \<bar>c + m\<bar> / 2 ^ 53"
      using h(7) unfolding update_fields h(4,5) by (rule num_add_rel_err[OF h(2) m])
    have "\<bar>(b' + c') - (b + c)\<bar> \<le> \<bar>b' - (b - m)\<bar> + \<bar>c' - (c + m)\<bar>" by linarith
    then have "\<bar>(b' + c') - (b + c)\<bar> \<le> \<bar>b - m\<bar> / 2 ^ 53 + \<bar>c + m\<bar> / 2 ^ 53"
      using 1 2 by linarith
    then have "\<bar>(b' + c') - (b + c)\<bar> \<le> (\<bar>b - m\<bar> + \<bar>c + m\<bar>) / 2 ^ 53"
      by (simp add: add_divide_distrib)
    then show ?thesis using 1 2 by blast
  qed
  then have "\<forall>b c m b' c'.
        is_double b \<and> is_double c \<and> SourceAccount.balance s = Fin b
        \<and> Environment.balance e = Fin c \<and> emissionAmount s t = Fin m
        \<and> SourceAccount.balance (fst (updateSourceAndEnvironment s e t g)) = Fin b'
        \<and> Environment.balance (fst (snd (updateSourceAndEnvironment s e t g))) = Fin c'
        \<longrightarrow> \<bar>b' - (b - m)\<bar> \<le> \<bar>b - m\<bar> / 2 ^ 53
          \<and> \<bar>c' - (c + m)\<bar> \<le> \<bar>c + m\<bar> / 2 ^ 53
          \<and> \<bar>(b' + c') - (b + c)\<bar> \<le> (\<bar>b - m\<bar> + \<bar>c + m\<bar>) / 2 ^ 53"
    by blast
  then show ?thesis
    by (intro conjI update_fields(1,2) update_v1_fields(1,2))
qed

theorem conservation_rounded_witness:
  "\<exists>m c'. is_double 1 \<and> is_double 0
     \<and> SourceAccount.balance (initializeSourceAccount (Fin 1) (Fin 0)) = Fin 1
     \<and> Environment.balance initializeEnvironment = Fin 0
     \<and> emissionAmount (initializeSourceAccount (Fin 1) (Fin 0)) (Fin 1000) = Fin m
     \<and> SourceAccount.balance (fst (updateSourceAndEnvironment
          (initializeSourceAccount (Fin 1) (Fin 0)) initializeEnvironment (Fin 1000)
          (sconst (1 / 2)))) = Fin 1
     \<and> Environment.balance (fst (snd (updateSourceAndEnvironment
          (initializeSourceAccount (Fin 1) (Fin 0)) initializeEnvironment (Fin 1000)
          (sconst (1 / 2))))) = Fin c'
     \<and> \<bar>(1 + c') - (1 + 0)\<bar> \<le> (\<bar>1 - m\<bar> + \<bar>0 + m\<bar>) / 2 ^ 53"
proof -
  let ?s = "initializeSourceAccount (Fin 1) (Fin 0)"
  let ?u = "updateSourceAndEnvironment ?s initializeEnvironment (Fin 1000) (sconst (1 / 2))"
  have a: "SourceAccount.balance ?s = Fin 1" "lastUpdateTime ?s = Fin 0"
    by (simp_all add: init_fields)
  obtain m where m: "emissionAmount ?s (Fin 1000) = Fin m"
    using in_range_Fin[OF source_1_unchanged(2)[OF a]] by blast
  have b': "SourceAccount.balance (fst ?u) = Fin 1"
    unfolding update_fields by (rule source_1_unchanged(1)[OF a])
  have c': "Environment.balance (fst (snd ?u)) = Fin m"
    unfolding update_fields init_env_fields m
    using emissionAmount_is_number[of ?s "Fin 1000"] unfolding m
    by (rule num_add_zero_left)
  have i: "is_double 1" "is_double 0" by simp_all
  have "\<bar>(1 + m) - (1 + 0)\<bar> \<le> (\<bar>1 - m\<bar> + \<bar>0 + m\<bar>) / 2 ^ 53"
    using conservation_rounded[of ?s initializeEnvironment "Fin 1000" "sconst (1 / 2)"]
      i a(1) init_env_fields(1) m b' c' by blast
  then show ?thesis using i a(1) init_env_fields(1) m b' c' by blast
qed

section \<open>The balance after a tick\<close>

text \<open>
  C2, as stated, fails: neither version clamps. A source created with a supply of
  \<open>10^9\<close> has, after one tick of 1000 ms, a negative balance (the rate at \<open>10^9\<close> is at
  least \<open>2^41\<close>, far above the supply).
\<close>

theorem balance_negative_counterexample:
  "num_less (SourceAccount.balance (fst (updateSourceAndEnvironment
      (initializeSourceAccount (Fin (10 ^ 9)) (Fin 0)) initializeEnvironment (Fin 1000)
      (sconst (1 / 2))))) (Fin 0)
   \<and> num_less (SourceAccount.balance (fst (updateSourceAndEnvironment_v1
      (initializeSourceAccount_v1 (Fin (10 ^ 9)) (Fin 0)) initializeEnvironment_v1 (Fin 1000))))
      (Fin 0)"
  unfolding update_fields update_v1_fields
  by (intro conjI in_range_neg_less[OF balance_1e9]) (simp_all add: init_fields)

text \<open>
  C2, amended. A tick stores the rounded difference of the balance and the amount,
  whatever its sign, and signals nothing. For a finite balance \<open>b\<close> and a finite amount
  \<open>m\<close> the stored balance is negative exactly when \<open>b < m\<close>; when the amount is
  \<^verbatim>\<open>Infinity\<close> the stored balance is \<^verbatim>\<open>-Infinity\<close>.
\<close>

theorem balance_after_tick:
  "SourceAccount.balance (fst (updateSourceAndEnvironment s e t g))
     = num_sub (SourceAccount.balance s) (emissionAmount s t)
   \<and> SourceAccount.balance (fst (updateSourceAndEnvironment_v1 s e1 t))
     = num_sub (SourceAccount.balance s) (emissionAmount s t)
   \<and> (\<forall>b m. is_double b \<and> SourceAccount.balance s = Fin b \<and> emissionAmount s t = Fin m
        \<longrightarrow> (num_less (SourceAccount.balance (fst (updateSourceAndEnvironment s e t g)))
               (Fin 0) \<longleftrightarrow> b < m)
          \<and> (num_less (SourceAccount.balance (fst (updateSourceAndEnvironment_v1 s e1 t)))
               (Fin 0) \<longleftrightarrow> b < m))
   \<and> (\<forall>b. SourceAccount.balance s = Fin b \<and> emissionAmount s t = PInf
        \<longrightarrow> SourceAccount.balance (fst (updateSourceAndEnvironment s e t g)) = NInf
          \<and> SourceAccount.balance (fst (updateSourceAndEnvironment_v1 s e1 t)) = NInf)"
proof -
  have "num_less (num_sub (SourceAccount.balance s) (emissionAmount s t)) (Fin 0) \<longleftrightarrow> b < m"
    if h: "is_double b" "SourceAccount.balance s = Fin b" "emissionAmount s t = Fin m" for b m
  proof -
    have m: "is_double m" using emissionAmount_is_number[of s t] h(3) by simp
    show ?thesis unfolding h(2,3) by (rule num_sub_less_zero[OF h(1) m])
  qed
  moreover have "num_sub (SourceAccount.balance s) (emissionAmount s t) = NInf"
    if "SourceAccount.balance s = Fin b" "emissionAmount s t = PInf" for b
    using that by simp
  ultimately have
    "\<forall>b m. is_double b \<and> SourceAccount.balance s = Fin b \<and> emissionAmount s t = Fin m
        \<longrightarrow> (num_less (SourceAccount.balance (fst (updateSourceAndEnvironment s e t g)))
               (Fin 0) \<longleftrightarrow> b < m)
          \<and> (num_less (SourceAccount.balance (fst (updateSourceAndEnvironment_v1 s e1 t)))
               (Fin 0) \<longleftrightarrow> b < m)"
    "\<forall>b. SourceAccount.balance s = Fin b \<and> emissionAmount s t = PInf
        \<longrightarrow> SourceAccount.balance (fst (updateSourceAndEnvironment s e t g)) = NInf
          \<and> SourceAccount.balance (fst (updateSourceAndEnvironment_v1 s e1 t)) = NInf"
    unfolding update_fields update_v1_fields by blast+
  then show ?thesis
    by (intro conjI update_fields(1) update_v1_fields(1))
qed

theorem balance_after_tick_witness:
  "\<exists>m. is_double (10 ^ 9)
     \<and> SourceAccount.balance (initializeSourceAccount (Fin (10 ^ 9)) (Fin 0)) = Fin (10 ^ 9)
     \<and> emissionAmount (initializeSourceAccount (Fin (10 ^ 9)) (Fin 0)) (Fin 1000) = Fin m
     \<and> 10 ^ 9 < m
     \<and> num_less (SourceAccount.balance (fst (updateSourceAndEnvironment
          (initializeSourceAccount (Fin (10 ^ 9)) (Fin 0)) initializeEnvironment (Fin 1000)
          (sconst (1 / 2))))) (Fin 0)"
proof -
  let ?s = "initializeSourceAccount (Fin (10 ^ 9)) (Fin 0)"
  have a: "SourceAccount.balance ?s = Fin (10 ^ 9)" "lastUpdateTime ?s = Fin 0"
    by (simp_all add: init_fields)
  obtain m where m: "emissionAmount ?s (Fin 1000) = Fin m" "10 ^ 9 < m"
    using emission_1e9[OF a] by blast
  have i: "is_double (10 ^ 9)" by (rule is_double_1e9)
  have "num_less (SourceAccount.balance (fst (updateSourceAndEnvironment
          ?s initializeEnvironment (Fin 1000) (sconst (1 / 2))))) (Fin 0)"
    using balance_after_tick[of ?s initializeEnvironment "Fin 1000" "sconst (1 / 2)"
        initializeEnvironment_v1] i a(1) m by blast
  then show ?thesis using i a(1) m by blast
qed

section \<open>A clock that does not advance\<close>

text \<open>
  C3, as stated, fails: the elapsed time is not tested. With a balance of 1 and an
  elapsed time of \<open>-1\<close> s the amount \<^verbatim>\<open>calculateEmissionAmount\<close> returns is negative; and a
  tick whose clock reading is 1 s behind \<^verbatim>\<open>lastUpdateTime\<close> takes the environment balance
  from 0 to a negative value, in both versions.
\<close>

theorem negative_elapsed_counterexample:
  "num_less (calculateEmissionAmount (initializeSourceAccount_v1 (Fin 1) (Fin 1000))
      (Fin (- 1))) (Fin 0)
   \<and> num_less (Environment_v1.balance (snd (updateSourceAndEnvironment_v1
        (initializeSourceAccount_v1 (Fin 1) (Fin 1000)) initializeEnvironment_v1 (Fin 0))))
      (Fin 0)
   \<and> num_less (Environment.balance (fst (snd (updateSourceAndEnvironment
        (initializeSourceAccount (Fin 1) (Fin 1000)) initializeEnvironment (Fin 0)
        (sconst (1 / 2)))))) (Fin 0)"
proof -
  let ?s1 = "initializeSourceAccount_v1 (Fin 1) (Fin 1000)"
  let ?s = "initializeSourceAccount (Fin 1) (Fin 1000)"
  have a: "SourceAccount.balance ?s1 = Fin 1" "lastUpdateTime ?s1 = Fin 1000"
    "SourceAccount.balance ?s = Fin 1" "lastUpdateTime ?s = Fin 1000"
    by (simp_all add: init_fields)
  have 1: "num_less (calculateEmissionAmount ?s1 (Fin (- 1))) (Fin 0)"
    by (rule in_range_neg_less[OF emission_minus_one[OF a(1)]])
  have 2: "num_less (emissionAmount ?s1 (Fin 0)) (Fin 0)"
    by (rule in_range_neg_less[OF emission_clock_back[OF a(1,2)]])
  have 3: "num_less (emissionAmount ?s (Fin 0)) (Fin 0)"
    by (rule in_range_neg_less[OF emission_clock_back[OF a(3,4)]])
  show ?thesis
    unfolding update_fields update_v1_fields init_env_fields
    using 1 2 3 by (simp add: num_add_zero_left)
qed

text \<open>
  C3, amended. For an elapsed time that is zero or negative the amount is the rate
  times the elapsed time, rounded, with no guard; the tick subtracts it from the
  source and adds it to the environment as any other. The rate is never negative, so
  the amount is never positive. With a finite rate \<open>r\<close> the amount is \<open>0\<close> at an elapsed
  time of \<open>0\<close>, and negative as soon as the product \<open>r * e\<close> is at most \<open>-2^-1074\<close>; with an
  infinite rate the amount at an elapsed time of \<open>0\<close> is \<^verbatim>\<open>NaN\<close>.
\<close>

theorem emission_nonpositive_elapsed:
  "(let rate = calculateEmissionRate (calculateSurfaceArea (SourceAccount.balance s))
                 (SourceAccount.balance s)
    in (\<forall>e. e \<le> 0 \<longrightarrow> \<not> num_less (Fin 0) (calculateEmissionAmount s (Fin e)))
     \<and> (\<forall>c l. lastUpdateTime s = Fin l \<and> c \<le> l \<longrightarrow>
          \<not> num_less (Fin 0) (emissionAmount s (Fin c))
          \<and> SourceAccount.balance (fst (updateSourceAndEnvironment s env (Fin c) g))
              = num_sub (SourceAccount.balance s) (emissionAmount s (Fin c))
          \<and> Environment.balance (fst (snd (updateSourceAndEnvironment s env (Fin c) g)))
              = num_add (Environment.balance env) (emissionAmount s (Fin c))
          \<and> SourceAccount.balance (fst (updateSourceAndEnvironment_v1 s env1 (Fin c)))
              = num_sub (SourceAccount.balance s) (emissionAmount s (Fin c))
          \<and> Environment_v1.balance (snd (updateSourceAndEnvironment_v1 s env1 (Fin c)))
              = num_add (Environment_v1.balance env1) (emissionAmount s (Fin c)))
     \<and> (\<forall>r e. rate = Fin r \<longrightarrow> 0 \<le> r \<and> calculateEmissionAmount s (Fin e) = rd (r * e))
     \<and> (\<forall>r. rate = Fin r \<longrightarrow> calculateEmissionAmount s (Fin 0) = Fin 0)
     \<and> (rate = PInf \<longrightarrow> calculateEmissionAmount s (Fin 0) = NaN)
     \<and> (\<forall>r e. rate = Fin r \<and> r * e \<le> - pow2 (- 1074)
          \<longrightarrow> num_less (calculateEmissionAmount s (Fin e)) (Fin 0)))"
proof -
  let ?rate = "calculateEmissionRate (calculateSurfaceArea (SourceAccount.balance s))
                 (SourceAccount.balance s)"
  have 1: "\<forall>e. e \<le> 0 \<longrightarrow> \<not> num_less (Fin 0) (calculateEmissionAmount s (Fin e))"
    using amount_nonpos by blast
  have 2: "\<forall>c l. lastUpdateTime s = Fin l \<and> c \<le> l \<longrightarrow>
          \<not> num_less (Fin 0) (emissionAmount s (Fin c))
          \<and> SourceAccount.balance (fst (updateSourceAndEnvironment s env (Fin c) g))
              = num_sub (SourceAccount.balance s) (emissionAmount s (Fin c))
          \<and> Environment.balance (fst (snd (updateSourceAndEnvironment s env (Fin c) g)))
              = num_add (Environment.balance env) (emissionAmount s (Fin c))
          \<and> SourceAccount.balance (fst (updateSourceAndEnvironment_v1 s env1 (Fin c)))
              = num_sub (SourceAccount.balance s) (emissionAmount s (Fin c))
          \<and> Environment_v1.balance (snd (updateSourceAndEnvironment_v1 s env1 (Fin c)))
              = num_add (Environment_v1.balance env1) (emissionAmount s (Fin c))"
    using emission_nonpos by (simp add: update_fields update_v1_fields)
  have 3: "\<forall>r e. ?rate = Fin r \<longrightarrow> 0 \<le> r \<and> calculateEmissionAmount s (Fin e) = rd (r * e)"
  proof (intro allI impI)
    fix r e
    assume h: "?rate = Fin r"
    have "0 \<le> r" using rate_sign[of "SourceAccount.balance s"] unfolding h by simp
    moreover have "calculateEmissionAmount s (Fin e) = rd (r * e)"
      unfolding calculateEmissionAmount_unfold h by simp
    ultimately show "0 \<le> r \<and> calculateEmissionAmount s (Fin e) = rd (r * e)" by blast
  qed
  have 4: "\<forall>r. ?rate = Fin r \<longrightarrow> calculateEmissionAmount s (Fin 0) = Fin 0"
    by (simp add: calculateEmissionAmount_unfold)
  have 5: "?rate = PInf \<longrightarrow> calculateEmissionAmount s (Fin 0) = NaN"
    by (simp add: calculateEmissionAmount_unfold)
  have 6: "\<forall>r e. ?rate = Fin r \<and> r * e \<le> - pow2 (- 1074)
          \<longrightarrow> num_less (calculateEmissionAmount s (Fin e)) (Fin 0)"
    using rd_neg_less by (simp add: calculateEmissionAmount_unfold)
  show ?thesis unfolding Let_def by (intro conjI 1 2 3 4 5 6)
qed

theorem emission_nonpositive_elapsed_witness:
  "\<exists>r. calculateEmissionRate
          (calculateSurfaceArea (SourceAccount.balance (initializeSourceAccount (Fin 1) (Fin 1000))))
          (SourceAccount.balance (initializeSourceAccount (Fin 1) (Fin 1000))) = Fin r
     \<and> (- 1 :: real) \<le> 0
     \<and> lastUpdateTime (initializeSourceAccount (Fin 1) (Fin 1000)) = Fin 1000
     \<and> (0 :: real) \<le> 1000
     \<and> r * (- 1) \<le> - pow2 (- 1074)
     \<and> num_less (calculateEmissionAmount (initializeSourceAccount (Fin 1) (Fin 1000))
          (Fin (- 1))) (Fin 0)
     \<and> \<not> num_less (Fin 0) (emissionAmount (initializeSourceAccount (Fin 1) (Fin 1000)) (Fin 0))"
proof -
  let ?s = "initializeSourceAccount (Fin 1) (Fin 1000)"
  let ?rate = "calculateEmissionRate (calculateSurfaceArea (SourceAccount.balance ?s))
                 (SourceAccount.balance ?s)"
  have a: "SourceAccount.balance ?s = Fin 1" "lastUpdateTime ?s = Fin 1000"
    by (simp_all add: init_fields)
  obtain r where r: "?rate = Fin r" "pow2 (- 93) \<le> r"
    using in_range_Fin[OF rate_1] unfolding a(1) by blast
  have "pow2 (- 1074) \<le> pow2 (- 93)" by simp
  then have p: "r * (- 1) \<le> - pow2 (- 1074)" using r(2) by linarith
  note T = emission_nonpositive_elapsed[of ?s initializeEnvironment "sconst (1 / 2)"
      initializeEnvironment_v1, unfolded Let_def]
  have 1: "num_less (calculateEmissionAmount ?s (Fin (- 1))) (Fin 0)"
    using T r(1) p by blast
  have 2: "\<not> num_less (Fin 0) (emissionAmount ?s (Fin 0))"
    using T a(2) by force
  show ?thesis using r(1) p a(2) 1 2 by force
qed

text \<open>
  C4, as stated, fails for a large finite balance. A source created with the supply
  \<open>2^300\<close> has an infinite rate (the fourth power of the balance overflows), the amount
  at an elapsed time of \<open>0\<close> is \<^verbatim>\<open>Infinity * 0 = NaN\<close>, and a tick at
  \<^verbatim>\<open>currentTime = lastUpdateTime\<close> turns both balances into \<^verbatim>\<open>NaN\<close>.
\<close>

theorem zero_elapsed_counterexample:
  "SourceAccount.balance (fst (updateSourceAndEnvironment
      (initializeSourceAccount (Fin (2 ^ 300)) (Fin 0)) initializeEnvironment (Fin 0)
      (sconst (1 / 2)))) = NaN
   \<and> Environment.balance (fst (snd (updateSourceAndEnvironment
      (initializeSourceAccount (Fin (2 ^ 300)) (Fin 0)) initializeEnvironment (Fin 0)
      (sconst (1 / 2))))) = NaN
   \<and> SourceAccount.balance (fst (updateSourceAndEnvironment_v1
      (initializeSourceAccount_v1 (Fin (2 ^ 300)) (Fin 0)) initializeEnvironment_v1 (Fin 0)))
      = NaN
   \<and> Environment_v1.balance (snd (updateSourceAndEnvironment_v1
      (initializeSourceAccount_v1 (Fin (2 ^ 300)) (Fin 0)) initializeEnvironment_v1 (Fin 0)))
      = NaN"
proof -
  let ?s = "initializeSourceAccount (Fin (2 ^ 300)) (Fin 0)"
  let ?s1 = "initializeSourceAccount_v1 (Fin (2 ^ 300)) (Fin 0)"
  have l: "lastUpdateTime ?s = Fin 0" "lastUpdateTime ?s1 = Fin 0"
    by (simp_all add: init_fields)
  have r: "\<not> is_finite (calculateEmissionRate (calculateSurfaceArea (SourceAccount.balance ?s))
      (SourceAccount.balance ?s))"
    "\<not> is_finite (calculateEmissionRate (calculateSurfaceArea (SourceAccount.balance ?s1))
      (SourceAccount.balance ?s1))"
    unfolding init_fields rate_2_300 by simp_all
  show ?thesis
    unfolding update_fields update_v1_fields
      emission_zero_elapsed(2)[OF l(1) r(1)] emission_zero_elapsed(2)[OF l(2) r(2)]
    by simp
qed

text \<open>
  C4, amended. A tick at \<^verbatim>\<open>currentTime = lastUpdateTime\<close> has an elapsed time of \<open>0\<close>. When
  the rate at the source balance is finite the amount is \<open>0\<close> and both balances keep
  their values, in both versions; the rate is finite whenever the balance is at most
  \<open>2^200\<close> in magnitude. When the rate is not finite the amount is \<^verbatim>\<open>NaN\<close> and both
  balances become \<^verbatim>\<open>NaN\<close>. A second call at the clock reading of a first call is such
  a tick: it keeps both balances when the rate at the balance the first call stored is
  finite.
\<close>

theorem zero_elapsed:
  "(let rate = calculateEmissionRate (calculateSurfaceArea (SourceAccount.balance s))
                 (SourceAccount.balance s)
    in (\<forall>l. lastUpdateTime s = Fin l \<and> is_number (SourceAccount.balance s)
            \<and> is_number (Environment.balance env) \<and> is_number (Environment_v1.balance env1)
            \<and> is_finite rate \<longrightarrow>
          SourceAccount.balance (fst (updateSourceAndEnvironment s env (Fin l) g))
              = SourceAccount.balance s
          \<and> Environment.balance (fst (snd (updateSourceAndEnvironment s env (Fin l) g)))
              = Environment.balance env
          \<and> SourceAccount.balance (fst (updateSourceAndEnvironment_v1 s env1 (Fin l)))
              = SourceAccount.balance s
          \<and> Environment_v1.balance (snd (updateSourceAndEnvironment_v1 s env1 (Fin l)))
              = Environment_v1.balance env1)
     \<and> (\<forall>l. lastUpdateTime s = Fin l \<and> \<not> is_finite rate \<longrightarrow>
          SourceAccount.balance (fst (updateSourceAndEnvironment s env (Fin l) g)) = NaN
          \<and> Environment.balance (fst (snd (updateSourceAndEnvironment s env (Fin l) g))) = NaN
          \<and> SourceAccount.balance (fst (updateSourceAndEnvironment_v1 s env1 (Fin l))) = NaN
          \<and> Environment_v1.balance (snd (updateSourceAndEnvironment_v1 s env1 (Fin l))) = NaN)
     \<and> (\<forall>b. SourceAccount.balance s = Fin b \<and> \<bar>b\<bar> \<le> pow2 200 \<longrightarrow> is_finite rate))
   \<and> (\<forall>c. (let u = updateSourceAndEnvironment s env (Fin c) g;
               rate' = calculateEmissionRate (calculateSurfaceArea (SourceAccount.balance (fst u)))
                         (SourceAccount.balance (fst u))
           in is_finite rate' \<longrightarrow>
              SourceAccount.balance
                  (fst (updateSourceAndEnvironment (fst u) (fst (snd u)) (Fin c) (snd (snd u))))
                = SourceAccount.balance (fst u)
              \<and> Environment.balance (fst (snd
                  (updateSourceAndEnvironment (fst u) (fst (snd u)) (Fin c) (snd (snd u)))))
                = Environment.balance (fst (snd u))))"
proof -
  let ?rate = "\<lambda>s. calculateEmissionRate (calculateSurfaceArea (SourceAccount.balance s))
                 (SourceAccount.balance s)"
  have keep: "num_sub (SourceAccount.balance s') (emissionAmount s' (Fin l)) = SourceAccount.balance s'"
      "num_add x (emissionAmount s' (Fin l)) = x"
    if "lastUpdateTime s' = Fin l" "is_number (SourceAccount.balance s')" "is_finite (?rate s')"
      "is_number x" for s' l x
    using that by (simp_all add: emission_zero_elapsed(1) num_sub_zero num_add_zero)
  have 1: "\<forall>l. lastUpdateTime s = Fin l \<and> is_number (SourceAccount.balance s)
            \<and> is_number (Environment.balance env) \<and> is_number (Environment_v1.balance env1)
            \<and> is_finite (?rate s) \<longrightarrow>
          SourceAccount.balance (fst (updateSourceAndEnvironment s env (Fin l) g))
              = SourceAccount.balance s
          \<and> Environment.balance (fst (snd (updateSourceAndEnvironment s env (Fin l) g)))
              = Environment.balance env
          \<and> SourceAccount.balance (fst (updateSourceAndEnvironment_v1 s env1 (Fin l)))
              = SourceAccount.balance s
          \<and> Environment_v1.balance (snd (updateSourceAndEnvironment_v1 s env1 (Fin l)))
              = Environment_v1.balance env1"
    unfolding update_fields update_v1_fields using keep by blast
  have 2: "\<forall>l. lastUpdateTime s = Fin l \<and> \<not> is_finite (?rate s) \<longrightarrow>
          SourceAccount.balance (fst (updateSourceAndEnvironment s env (Fin l) g)) = NaN
          \<and> Environment.balance (fst (snd (updateSourceAndEnvironment s env (Fin l) g))) = NaN
          \<and> SourceAccount.balance (fst (updateSourceAndEnvironment_v1 s env1 (Fin l))) = NaN
          \<and> Environment_v1.balance (snd (updateSourceAndEnvironment_v1 s env1 (Fin l))) = NaN"
    unfolding update_fields update_v1_fields by (simp add: emission_zero_elapsed(2))
  have 3: "\<forall>b. SourceAccount.balance s = Fin b \<and> \<bar>b\<bar> \<le> pow2 200 \<longrightarrow> is_finite (?rate s)"
    using rate_finite by simp
  have 4: "\<forall>c. (let u = updateSourceAndEnvironment s env (Fin c) g;
               rate' = calculateEmissionRate (calculateSurfaceArea (SourceAccount.balance (fst u)))
                         (SourceAccount.balance (fst u))
           in is_finite rate' \<longrightarrow>
              SourceAccount.balance
                  (fst (updateSourceAndEnvironment (fst u) (fst (snd u)) (Fin c) (snd (snd u))))
                = SourceAccount.balance (fst u)
              \<and> Environment.balance (fst (snd
                  (updateSourceAndEnvironment (fst u) (fst (snd u)) (Fin c) (snd (snd u)))))
                = Environment.balance (fst (snd u)))"
  proof (intro allI, unfold Let_def, intro impI)
    fix c
    let ?u = "updateSourceAndEnvironment s env (Fin c) g"
    assume f: "is_finite (?rate (fst ?u))"
    have l: "lastUpdateTime (fst ?u) = Fin c" by (simp add: update_fields)
    have n: "is_number (SourceAccount.balance (fst ?u))"
      "is_number (Environment.balance (fst (snd ?u)))"
      by (simp_all add: update_fields)
    show "SourceAccount.balance
                  (fst (updateSourceAndEnvironment (fst ?u) (fst (snd ?u)) (Fin c) (snd (snd ?u))))
                = SourceAccount.balance (fst ?u)
              \<and> Environment.balance (fst (snd
                  (updateSourceAndEnvironment (fst ?u) (fst (snd ?u)) (Fin c) (snd (snd ?u)))))
                = Environment.balance (fst (snd ?u))"
      unfolding update_fields(1,2)[of "fst ?u"]
      using keep(1)[OF l n(1) f n(2)] keep(2)[OF l n(1) f n(2)] by blast
  qed
  show ?thesis unfolding Let_def using 1 2 3 4[unfolded Let_def] by blast
qed

theorem zero_elapsed_witness:
  "lastUpdateTime (initializeSourceAccount (Fin 1000) (Fin 0)) = Fin 0
   \<and> is_number (SourceAccount.balance (initializeSourceAccount (Fin 1000) (Fin 0)))
   \<and> is_number (Environment.balance initializeEnvironment)
   \<and> is_number (Environment_v1.balance initializeEnvironment_v1)
   \<and> SourceAccount.balance (initializeSourceAccount (Fin 1000) (Fin 0)) = Fin 1000
   \<and> \<bar>1000\<bar> \<le> pow2 200
   \<and> is_finite (calculateEmissionRate
        (calculateSurfaceArea (SourceAccount.balance (initializeSourceAccount (Fin 1000) (Fin 0))))
        (SourceAccount.balance (initializeSourceAccount (Fin 1000) (Fin 0))))
   \<and> SourceAccount.balance (fst (updateSourceAndEnvironment
        (initializeSourceAccount (Fin 1000) (Fin 0)) initializeEnvironment (Fin 0)
        (sconst (1 / 2)))) = Fin 1000
   \<and> Environment.balance (fst (snd (updateSourceAndEnvironment
        (initializeSourceAccount (Fin 1000) (Fin 0)) initializeEnvironment (Fin 0)
        (sconst (1 / 2))))) = Fin 0"
proof -
  let ?s = "initializeSourceAccount (Fin 1000) (Fin 0)"
  let ?rate = "calculateEmissionRate (calculateSurfaceArea (SourceAccount.balance ?s))
                 (SourceAccount.balance ?s)"
  note T = zero_elapsed[of ?s initializeEnvironment initializeEnvironment_v1 "sconst (1 / 2)",
      unfolded Let_def]
  have a: "lastUpdateTime ?s = Fin 0" "SourceAccount.balance ?s = Fin 1000"
    "is_number (SourceAccount.balance ?s)" "is_number (Environment.balance initializeEnvironment)"
    "is_number (Environment_v1.balance initializeEnvironment_v1)"
    "Environment.balance initializeEnvironment = Fin 0"
    by (simp_all add: init_fields init_env_fields)
  have "(1000 :: real) \<le> 2 ^ 200" by simp
  then have b: "\<bar>1000 :: real\<bar> \<le> pow2 200" by (simp add: pow2_numeral)
  have f: "is_finite ?rate" using T a(2) b by blast
  have "SourceAccount.balance (fst (updateSourceAndEnvironment ?s initializeEnvironment (Fin 0)
        (sconst (1 / 2)))) = SourceAccount.balance ?s
     \<and> Environment.balance (fst (snd (updateSourceAndEnvironment ?s initializeEnvironment (Fin 0)
        (sconst (1 / 2))))) = Environment.balance initializeEnvironment"
    using T a(1,3,4,5) f by blast
  then show ?thesis using a b f by simp
qed

section \<open>The surface area\<close>

text \<open>
  C7, as stated, fails: \<^verbatim>\<open>calculateSurfaceArea\<close> has no test of its argument. At the
  volume \<open>-1000\<close> it returns what it returns at \<open>1000\<close>, a finite area between \<open>2^7\<close> and
  \<open>2^10\<close>.
\<close>

theorem negative_volume_counterexample:
  "calculateSurfaceArea (Fin (- 1000)) = calculateSurfaceArea (Fin 1000)
   \<and> in_range (pow2 7) (pow2 10) (calculateSurfaceArea (Fin (- 1000)))"
  using calculateSurfaceArea_neg[of "Fin 1000"] area_1000 by simp

text \<open>
  C7, amended. \<^verbatim>\<open>calculateSurfaceArea\<close> is even: at \<open>-v\<close> it returns what it returns at
  \<open>v\<close>, for every number \<open>v\<close>, and at \<^verbatim>\<open>-Infinity\<close> it returns \<^verbatim>\<open>Infinity\<close>. At a double
  \<open>x \<le> 0\<close> the result is a finite number between \<open>0\<close> and \<open>2^686\<close>, never an error and
  never \<^verbatim>\<open>NaN\<close>; it is \<open>0\<close> for \<open>-2^-1073 \<le> x \<le> 0\<close> (the quotient underflows), and at least
  \<open>2^-713\<close> for \<open>x \<le> -2^-1071\<close>.
\<close>

theorem surfaceArea_nonpositive_volume:
  "calculateSurfaceArea (num_neg v) = calculateSurfaceArea v
   \<and> calculateSurfaceArea NInf = PInf
   \<and> (\<forall>x. is_double x \<and> x \<le> 0 \<longrightarrow> in_range 0 (pow2 686) (calculateSurfaceArea (Fin x)))
   \<and> (\<forall>x. - pow2 (- 1073) \<le> x \<and> x \<le> 0 \<longrightarrow> calculateSurfaceArea (Fin x) = Fin 0)
   \<and> (\<forall>x. is_double x \<and> x \<le> - pow2 (- 1071)
        \<longrightarrow> in_range (pow2 (- 713)) (pow2 686) (calculateSurfaceArea (Fin x)))"
proof -
  have 3: "\<forall>x. is_double x \<and> x \<le> 0 \<longrightarrow> in_range 0 (pow2 686) (calculateSurfaceArea (Fin x))"
    using area_nonneg by blast
  have 4: "\<forall>x. - pow2 (- 1073) \<le> x \<and> x \<le> 0 \<longrightarrow> calculateSurfaceArea (Fin x) = Fin 0"
  proof (intro allI impI)
    fix x :: real
    assume "- pow2 (- 1073) \<le> x \<and> x \<le> 0"
    then have "\<bar>x\<bar> \<le> pow2 (- 1073)" by linarith
    then show "calculateSurfaceArea (Fin x) = Fin 0" by (rule area_tiny)
  qed
  have 5: "\<forall>x. is_double x \<and> x \<le> - pow2 (- 1071)
        \<longrightarrow> in_range (pow2 (- 713)) (pow2 686) (calculateSurfaceArea (Fin x))"
    using area_neg_range by blast
  show ?thesis by (intro conjI calculateSurfaceArea_neg area_NInf 3 4 5)
qed

theorem surfaceArea_nonpositive_volume_witness:
  "is_double (- 1000) \<and> (- 1000 :: real) \<le> 0 \<and> (- 1000 :: real) \<le> - pow2 (- 1071)
   \<and> in_range (pow2 (- 713)) (pow2 686) (calculateSurfaceArea (Fin (- 1000)))
   \<and> - pow2 (- 1073) \<le> (0 :: real)
   \<and> calculateSurfaceArea (Fin 0) = Fin 0"
proof -
  note T = surfaceArea_nonpositive_volume[of "Fin 0"]
  have i: "is_double (- 1000)" by simp
  have "pow2 (- 1071) \<le> 1" by simp
  then have l: "(- 1000 :: real) \<le> - pow2 (- 1071)" by linarith
  have z: "- pow2 (- 1073) \<le> (0 :: real)" by simp
  have 1: "in_range (pow2 (- 713)) (pow2 686) (calculateSurfaceArea (Fin (- 1000)))"
    using T i l by blast
  have 2: "calculateSurfaceArea (Fin 0) = Fin 0" using T z by blast
  show ?thesis using i l z 1 2 by simp
qed

section \<open>The sampler and the levels\<close>




text \<open>
  C10, as stated, fails in double arithmetic. The draw \<open>1 - 2^-52\<close> is a double strictly
  inside \<open>(0, 1)\<close>, and its power \<open>-1/3.5\<close> rounds to \<open>1\<close>: on a generator that returns this
  draw every sample is \<open>0\<close>, not positive, the divisor is \<open>0\<close>, and every normalised weight
  is \<^verbatim>\<open>0 / 0 = NaN\<close>.
\<close>

theorem samples_zero_counterexample:
  "is_double (1 - 1 / 2 ^ 52) \<and> (0 :: real) < 1 - 1 / 2 ^ 52 \<and> (1 - 1 / 2 ^ 52 :: real) < 1
   \<and> fst (kappaRandom KAPPA 1 (sconst (1 - 1 / 2 ^ 52))) = [Fin 0]
   \<and> totalDistribution (sconst (1 - 1 / 2 ^ 52)) = Fin 0
   \<and> normalizedDistribution (sconst (1 - 1 / 2 ^ 52)) = replicate 100 NaN"
proof -
  have "fst (kappaRandom KAPPA 1 (sconst (1 - 1 / 2 ^ 52))) = replicate 1 (Fin 0)"
    by (rule samples_below_one)
  then have 1: "fst (kappaRandom KAPPA 1 (sconst (1 - 1 / 2 ^ 52))) = [Fin 0]" by simp
  have 2: "(0 :: real) < 1 - 1 / 2 ^ 52" "(1 - 1 / 2 ^ 52 :: real) < 1" by simp_all
  show ?thesis
    using is_double_below_one 2 1 total_below_one weights_below_one by blast
qed

text \<open>
  C10, amended. For every double \<open>kappa > 0\<close> and draws that are doubles strictly inside
  \<open>(0, 1)\<close>, no sample of \<^verbatim>\<open>kappaRandom\<close> is negative or \<^verbatim>\<open>NaN\<close>: it is a double \<open>\<ge> 0\<close>, possibly
  \<open>0\<close>, or \<^verbatim>\<open>Infinity\<close>. In \<^verbatim>\<open>updateSourceAndEnvironment\<close> (\<open>kappa = 3.5\<close>, 100 samples) the
  divisor is then not negative and not \<^verbatim>\<open>NaN\<close>, no sample exceeds it, and the weights
  that the tick multiplies by the amount and adds to the levels are all between \<open>0\<close>
  and \<open>1\<close> when the divisor is positive, and all \<^verbatim>\<open>NaN\<close> when it is not.
\<close>

theorem samples_not_negative:
  "(is_double k \<and> 0 < k \<and> random_open g \<longrightarrow>
      (\<forall>v \<in> set (fst (kappaRandom (Fin k) n g)). nonneg_num v))
   \<and> (random_open g \<longrightarrow>
        nonneg_num (totalDistribution g)
      \<and> (\<forall>v \<in> set (levelDistribution g). \<not> num_less (totalDistribution g) v)
      \<and> (num_less (Fin 0) (totalDistribution g) \<longrightarrow>
           (\<forall>w \<in> set (normalizedDistribution g). in_range 0 1 w))
      \<and> (\<not> num_less (Fin 0) (totalDistribution g) \<longrightarrow>
           normalizedDistribution g = replicate 100 NaN))
   \<and> levels (fst (snd (updateSourceAndEnvironment s env t g)))
       = add_to_levels (levels env) (normalizedDistribution g) (emissionAmount s t)
   \<and> (length (levels env) = 100 \<longrightarrow>
        (\<forall>i<100. levels (fst (snd (updateSourceAndEnvironment s env t g))) ! i
           = num_add (levels env ! i)
               (num_mul (normalizedDistribution g ! i) (emissionAmount s t))))"
proof -
  have 1: "\<forall>v \<in> set (fst (kappaRandom (Fin k) n g)). nonneg_num v"
    if "is_double k" "0 < k" "random_open g"
    using samples_nonneg[OF that] .
  have 2: "nonneg_num (totalDistribution g)" if "random_open g"
    by (rule in_range_nonneg_num[OF total_range[OF that]])
  have 3: "\<forall>v \<in> set (levelDistribution g). \<not> num_less (totalDistribution g) v"
    if "random_open g"
    using samples_le_total[OF that] .
  have 4: "\<forall>w \<in> set (normalizedDistribution g). in_range 0 1 w"
    if "random_open g" "num_less (Fin 0) (totalDistribution g)"
    using weights_range[OF that] .
  have 5: "normalizedDistribution g = replicate 100 NaN"
    if g: "random_open g" and n: "\<not> num_less (Fin 0) (totalDistribution g)"
  proof -
    obtain x where x: "totalDistribution g = Fin x" "0 \<le> x"
      using in_range_Fin[OF total_range[OF g]] by blast
    then have "totalDistribution g = Fin 0" using n by simp
    then show ?thesis by (rule weights_zero_total[OF g])
  qed
  have 6: "\<forall>i<100. levels (fst (snd (updateSourceAndEnvironment s env t g))) ! i
           = num_add (levels env ! i)
               (num_mul (normalizedDistribution g ! i) (emissionAmount s t))"
    if "length (levels env) = 100"
    using update_level[OF that] by blast
  show ?thesis using 1 2 3 4 5 6 update_fields(3)[of s env t g] by blast
qed

theorem samples_not_negative_witness:
  "is_double (7 / 2) \<and> (0 :: real) < 7 / 2
   \<and> is_double (1 / 2) \<and> (0 :: real) < 1 / 2 \<and> (1 / 2 :: real) < 1
   \<and> nonneg_num (fst (kappaRandom (Fin (7 / 2)) 1 (sconst (1 / 2))) ! 0)
   \<and> num_less (Fin 0) (totalDistribution (sconst (1 / 2)))
   \<and> in_range 0 1 (normalizedDistribution (sconst (1 / 2)) ! 0)
   \<and> length (levels initializeEnvironment) = 100
   \<and> levels (fst (snd (updateSourceAndEnvironment
        (initializeSourceAccount (Fin 1000) (Fin 0)) initializeEnvironment (Fin 1000)
        (sconst (1 / 2))))) ! 0
      = num_add (levels initializeEnvironment ! 0)
          (num_mul (normalizedDistribution (sconst (1 / 2)) ! 0)
             (emissionAmount (initializeSourceAccount (Fin 1000) (Fin 0)) (Fin 1000)))"
proof -
  let ?s = "initializeSourceAccount (Fin 1000) (Fin 0)"
  let ?g = "sconst (1 / 2 :: real)"
  note T = samples_not_negative[of "7 / 2" ?g 1 ?s initializeEnvironment "Fin 1000"]
  have k: "is_double (7 / 2)"
  proof -
    have e: "real_of_int 7 * pow2 (- 1) = 7 / 2" using pow2_minus[of 1] by (simp add: pow2_1)
    show ?thesis using is_double_dyadic[of 7 "- 1"] unfolding e by simp
  qed
  have kp: "(0 :: real) < 7 / 2" by simp
  have g: "random_open ?g" by (rule random_open_half)
  have p: "num_less (Fin 0) (totalDistribution ?g)" by (rule total_half_pos)
  have l: "length (levels initializeEnvironment) = 100" by (simp add: init_env_fields)
  have z: "(0 :: nat) < 100" by simp
  have "fst (kappaRandom (Fin (7 / 2)) 1 ?g) ! 0 \<in> set (fst (kappaRandom (Fin (7 / 2)) 1 ?g))"
    by (intro nth_mem) simp
  then have 1: "nonneg_num (fst (kappaRandom (Fin (7 / 2)) 1 ?g) ! 0)"
    using T k kp g by blast
  have "normalizedDistribution ?g ! 0 \<in> set (normalizedDistribution ?g)"
    by (intro nth_mem) simp
  then have 2: "in_range 0 1 (normalizedDistribution ?g ! 0)"
    using T g p by blast
  have 3: "levels (fst (snd (updateSourceAndEnvironment ?s initializeEnvironment (Fin 1000) ?g)))
        ! 0
      = num_add (levels initializeEnvironment ! 0)
          (num_mul (normalizedDistribution ?g ! 0) (emissionAmount ?s (Fin 1000)))"
    using T l z by blast
  show ?thesis using k is_double_half 1 p 2 l 3 by simp
qed

section \<open>The field emissionRate\<close>

text \<open>
  C9, as stated, fails. After one tick of 1000 ms on a source created with
  \<^verbatim>\<open>initializeSourceAccount(1e9)\<close> the field \<^verbatim>\<open>emissionRate\<close> differs from the rate
  computed from the balance the tick has stored: the field is at most \<open>2^52\<close>, the rate
  at the stored balance at least \<open>2^93\<close>.
\<close>

theorem emissionRate_stale_counterexample:
  "emissionRate (fst (updateSourceAndEnvironment
      (initializeSourceAccount (Fin (10 ^ 9)) (Fin 0)) initializeEnvironment (Fin 1000)
      (sconst (1 / 2))))
   \<noteq> calculateEmissionRate
       (calculateSurfaceArea (SourceAccount.balance (fst (updateSourceAndEnvironment
          (initializeSourceAccount (Fin (10 ^ 9)) (Fin 0)) initializeEnvironment (Fin 1000)
          (sconst (1 / 2))))))
       (SourceAccount.balance (fst (updateSourceAndEnvironment
          (initializeSourceAccount (Fin (10 ^ 9)) (Fin 0)) initializeEnvironment (Fin 1000)
          (sconst (1 / 2)))))"
proof -
  let ?s = "initializeSourceAccount (Fin (10 ^ 9)) (Fin 0)"
  have b: "in_range (- pow2 52) (- pow2 40)
      (num_sub (SourceAccount.balance ?s) (emissionAmount ?s (Fin 1000)))"
    by (rule balance_1e9) (simp_all add: init_fields)
  show ?thesis
    unfolding update_fields init_fields(3)
    by (rule in_range_disjoint[OF rate_1e9 rate_after_1e9[OF b]]) (simp only: pow2_less_iff)
qed

lemma advance_all_emissionRate:
  "emissionRate (fst (advance_all s e ts g)) = emissionRate s"
proof (induction ts arbitrary: s e g)
  case Nil
  then show ?case by simp
next
  case (Cons c ts)
  obtain s' e' g' where r: "updateSourceAndEnvironment s e c g = (s', e', g')"
    by (cases "updateSourceAndEnvironment s e c g") auto
  then have "emissionRate s' = emissionRate s"
    using update_fields(6)[of s e c g] by simp
  then show ?case by (simp add: r Cons.IH)
qed

text \<open>
  C9, amended. No tick writes the field \<^verbatim>\<open>emissionRate\<close>: after every call of either
  version of the update the field holds the value it had before the call, so that
  after any sequence of ticks it is still the rate \<^verbatim>\<open>initializeSourceAccount\<close> computed
  from the initial supply.
\<close>

theorem emissionRate_never_written:
  "emissionRate (fst (updateSourceAndEnvironment s e t g)) = emissionRate s
   \<and> emissionRate (fst (updateSourceAndEnvironment_v1 s e1 t)) = emissionRate s
   \<and> emissionRate (fst (advance_all (initializeSourceAccount x now) e ts g))
       = calculateEmissionRate (calculateSurfaceArea x) x"
  by (simp add: update_fields update_v1_fields advance_all_emissionRate init_fields)

end
